theory Spec2Isabelle
  imports Complex_Main "HOL-Library.Word"
begin

section \<open>Icon effect pipeline (assets/icons/process\_effects.py)\<close>

text \<open>
  The effects of \<^verbatim>\<open>process_effects.py\<close> work on RGBA rasters with 8-bit channels and on
  8-bit masks (numpy arrays of dtype uint8). A raster is the list of its rows, top row
  first; a row is the list of its cells, left to right, so that the cell the source
  calls \<^verbatim>\<open>pixels[x, y]\<close> (Pillow) or \<^verbatim>\<open>array[y, x]\<close> (numpy) is \<open>g ! y ! x\<close>.
  A channel is a byte; Python's own integers (thresholds, radii, paddings, brightness) are
  \<open>int\<close>.
\<close>

subsection \<open>Data model\<close>

type_synonym byte = "8 word"

type_synonym rgba = "byte \<times> byte \<times> byte \<times> byte"

type_synonym 'a array2 = "'a list list"

type_synonym image = "rgba array2"

type_synonym mask = "byte array2"

text \<open>\<^verbatim>\<open>img.size\<close> is (width, height); \<^verbatim>\<open>array.shape\<close> is (height, width).\<close>

definition height :: "'a array2 \<Rightarrow> nat" where
  "height g = length g"

definition width :: "'a array2 \<Rightarrow> nat" where
  "width g = (case g of [] \<Rightarrow> 0 | row # _ \<Rightarrow> length row)"

text \<open>Rasters and arrays are rectangular: every row has the raster's width.\<close>

definition rect :: "'a array2 \<Rightarrow> bool" where
  "rect g = list_all (\<lambda>row. length row = width g) g"

definition alpha_of :: "rgba \<Rightarrow> byte" where
  "alpha_of p = (case p of (r, g, b, a) \<Rightarrow> a)"

subsection \<open>remove\_partial\_transparency\<close>

text \<open>
  The loop body of \<^verbatim>\<open>remove_partial_transparency\<close>: \<^verbatim>\<open>r, g, b, a = pixels[x, y]\<close>,
  then \<^verbatim>\<open>if a >= threshold and a > 0: pixels[x, y] = (a, a, a, 255)\<close>. The threshold is
  a Python integer of any size.
\<close>

definition normalize_pixel :: "int \<Rightarrow> rgba \<Rightarrow> rgba" where
  "normalize_pixel threshold p =
     (case p of (r, g, b, a) \<Rightarrow>
        if uint a \<ge> threshold \<and> uint a > 0 then (a, a, a, 255) else (r, g, b, a))"

text \<open>
  The two nested \<^verbatim>\<open>range\<close> loops visit every cell once and write only the cell they
  read, so the in-place update is a map over the rows and over the cells of each row.
\<close>

definition remove_partial_transparency :: "image \<Rightarrow> int \<Rightarrow> image" where
  "remove_partial_transparency img threshold = map (map (normalize_pixel threshold)) img"

subsection \<open>create\_circular\_kernel\<close>

text \<open>
  \<^verbatim>\<open>dist = math.sqrt((x - center) ** 2 + (y - center) ** 2)\<close> and the test
  \<^verbatim>\<open>dist <= radius\<close>, with the square root taken over the reals. (Python takes it in
  double precision; the rounded root of an integer below \<open>2^53\<close> is at most the integer
  \<open>radius\<close> exactly when the real root is, for every radius whose kernel fits in memory.)
  The kernel is a uint8 array: a cell inside the disc holds 1, every other cell 0.
\<close>

definition kernel_cell :: "int \<Rightarrow> nat \<Rightarrow> nat \<Rightarrow> byte" where
  "kernel_cell radius x y =
     (let center = radius;
          dist = sqrt (real_of_int ((int x - center)\<^sup>2 + (int y - center)\<^sup>2))
      in if dist \<le> real_of_int radius then 1 else 0)"

definition create_circular_kernel :: "int \<Rightarrow> mask" where
  "create_circular_kernel radius =
     (let size = nat (radius * 2 + 1)
      in map (\<lambda>y. map (\<lambda>x. kernel_cell radius x y) [0..<size]) [0..<size])"

subsection \<open>dilate\_with\_circular\_kernel\<close>

text \<open>
  \<^verbatim>\<open>np.pad(a, pad, mode='constant', constant_values=0)\<close>: \<open>pad\<close> rows of zeros above and
  below, \<open>pad\<close> zeros before and after every row.
\<close>

definition np_pad :: "mask \<Rightarrow> nat \<Rightarrow> mask" where
  "np_pad a pad =
     (let w = width a + 2 * pad
      in replicate pad (replicate w 0)
         @ map (\<lambda>row. replicate pad 0 @ row @ replicate pad 0) a
         @ replicate pad (replicate w 0))"

text \<open>The slice \<^verbatim>\<open>xs[lo:hi]\<close> for \<open>0 \<le> lo \<le> hi\<close>, and \<^verbatim>\<open>a[y0:y1, x0:x1]\<close>.\<close>

definition slice :: "'a list \<Rightarrow> nat \<Rightarrow> nat \<Rightarrow> 'a list" where
  "slice xs lo hi = take (hi - lo) (drop lo xs)"

definition slice2 :: "'a array2 \<Rightarrow> nat \<Rightarrow> nat \<Rightarrow> nat \<Rightarrow> nat \<Rightarrow> 'a array2" where
  "slice2 a y0 y1 x0 x1 = map (\<lambda>row. slice row x0 x1) (slice a y0 y1)"

text \<open>\<^verbatim>\<open>np.any((region > 0) & (kernel > 0))\<close>, cell by cell over two arrays of one shape.\<close>

definition np_any_overlap :: "mask \<Rightarrow> mask \<Rightarrow> bool" where
  "np_any_overlap region kern =
     list_ex (\<lambda>(rrow, krow). list_ex (\<lambda>(a, b). a > 0 \<and> b > 0) (zip rrow krow))
       (zip region kern)"

text \<open>
  The output starts as \<^verbatim>\<open>np.zeros_like(mask_array)\<close>; the loops over \<^verbatim>\<open>range(height)\<close>
  and \<^verbatim>\<open>range(width)\<close> set cell \<open>(y, x)\<close> to 255 when the kernel overlaps a white cell of
  the padded mask. A radius \<open>\<le> 0\<close> returns the mask itself.
\<close>

definition dilate_with_circular_kernel :: "mask \<Rightarrow> int \<Rightarrow> mask" where
  "dilate_with_circular_kernel msk radius =
     (if radius \<le> 0 then msk
      else
        let kern = create_circular_kernel radius;
            kernel_size = length kern;
            pad = nat radius;
            padded = np_pad msk pad;
            h = height msk;
            w = width msk
        in map (\<lambda>y. map (\<lambda>x.
                 let region = slice2 padded y (y + kernel_size) x (x + kernel_size)
                 in if np_any_overlap region kern then 255 else 0) [0..<w]) [0..<h])"

subsection \<open>Pillow operations used by the effects\<close>

text \<open>\<^verbatim>\<open>Image.new(mode, (width, height), color)\<close>: a raster filled with one value.\<close>

definition image_new :: "nat \<times> nat \<Rightarrow> 'a \<Rightarrow> 'a array2" where
  "image_new sz c = (case sz of (w, h) \<Rightarrow> replicate h (replicate w c))"

definition image_size :: "'a array2 \<Rightarrow> nat \<times> nat" where
  "image_size g = (width g, height g)"

text \<open>
  A colour as \<^verbatim>\<open>parse_outline_arg\<close> returns it is a tuple of Python integers. Pillow stores
  each component of a fill colour clipped to a byte (its \<^verbatim>\<open>CLIP8\<close>).
\<close>

type_synonym color = "int \<times> int \<times> int \<times> int"

definition clip8 :: "int \<Rightarrow> byte" where
  "clip8 v = (if v \<le> 0 then 0 else if v < 256 then word_of_int v else 255)"

definition ink :: "color \<Rightarrow> rgba" where
  "ink c = (case c of (r, g, b, a) \<Rightarrow> (clip8 r, clip8 g, clip8 b, clip8 a))"

text \<open>
  Pillow divides by 255 with shifts: \<^verbatim>\<open>SHIFTFORDIV255(a) = (((a >> 8) + a) >> 8)\<close> and
  \<^verbatim>\<open>DIV255(a) = SHIFTFORDIV255(a + 128)\<close>. The intermediate values are 32-bit and stay
  far below \<open>2^32\<close>, so they are plain integers here.
\<close>

definition shift_for_div255 :: "int \<Rightarrow> int" where
  "shift_for_div255 a = (a div 256 + a) div 256"

definition div255 :: "int \<Rightarrow> int" where
  "div255 a = shift_for_div255 (a + 128)"

text \<open>
  Modelled from the spec: step (4) of the outline composer, "a solid-color layer masked by
  the outline mask", which the source does with \<^verbatim>\<open>layer.paste(color_img, mask=outline_mask)\<close>.
  Pillow blends every channel by the mask value,
  \<^verbatim>\<open>BLEND(mask, in1, in2) = DIV255(in1 * (255 - mask) + in2 * mask)\<close>: a mask cell of 255
  takes the pasted pixel, a mask cell of 0 keeps the pixel below. The outline mask holds
  no other value.
\<close>

definition blend8 :: "byte \<Rightarrow> byte \<Rightarrow> byte \<Rightarrow> byte" where
  "blend8 m in1 in2 = word_of_int (div255 (uint in1 * (255 - uint m) + uint in2 * uint m))"

definition blend_pixel :: "byte \<Rightarrow> rgba \<Rightarrow> rgba \<Rightarrow> rgba" where
  "blend_pixel m dst src =
     (case dst of (dr, dg, db, da) \<Rightarrow> case src of (sr, sg, sb, sa) \<Rightarrow>
        (blend8 m dr sr, blend8 m dg sg, blend8 m db sb, blend8 m da sa))"

definition paste_masked :: "image \<Rightarrow> image \<Rightarrow> mask \<Rightarrow> image" where
  "paste_masked dst src msk =
     map (\<lambda>(drow, srow, mrow). map (\<lambda>(d, s, m). blend_pixel m d s) (zip drow (zip srow mrow)))
       (zip dst (zip src msk))"

text \<open>
  Modelled from the spec: step (5) of the outline composer, "standard alpha-over
  compositing (source-over)", which the source does with \<^verbatim>\<open>Image.alpha_composite(dst, src)\<close>.
  Pillow computes it per pixel in integers: a source pixel of alpha 0 leaves the
  destination pixel; otherwise
  \<^verbatim>\<open>blend = dst.a * (255 - src.a)\<close>, \<^verbatim>\<open>outa255 = src.a * 255 + blend\<close>,
  \<^verbatim>\<open>coef1 = src.a * 255 * 255 * 128 / outa255\<close>, \<^verbatim>\<open>coef2 = 255 * 128 - coef1\<close>, each colour
  channel is \<^verbatim>\<open>SHIFTFORDIV255(src.c * coef1 + dst.c * coef2 + (0x80 << 7)) >> 7\<close> and the
  alpha is \<^verbatim>\<open>SHIFTFORDIV255(outa255 + 0x80)\<close>.
\<close>

definition alpha_composite_pixel :: "rgba \<Rightarrow> rgba \<Rightarrow> rgba" where
  "alpha_composite_pixel dst src =
     (case dst of (dr, dg, db, da) \<Rightarrow> case src of (sr, sg, sb, sa) \<Rightarrow>
        if sa = 0 then dst
        else
          let blend = uint da * (255 - uint sa);
              outa255 = uint sa * 255 + blend;
              coef1 = uint sa * 255 * 255 * 128 div outa255;
              coef2 = 255 * 128 - coef1;
              channel = (\<lambda>s d.
                word_of_int
                  (shift_for_div255 (uint s * coef1 + uint d * coef2 + 128 * 128) div 128))
          in (channel sr dr, channel sg dg, channel sb db,
              word_of_int (shift_for_div255 (outa255 + 128))))"

definition alpha_composite :: "image \<Rightarrow> image \<Rightarrow> image" where
  "alpha_composite dst src =
     map (\<lambda>(drow, srow). map (\<lambda>(d, s). alpha_composite_pixel d s) (zip drow srow)) (zip dst src)"

text \<open>
  \<^verbatim>\<open>canvas.paste(src, (px, py))\<close> without a mask copies the pixels of \<open>src\<close>, alpha
  included, into the canvas with the top left corner at \<open>(px, py)\<close>; what falls outside
  the canvas is clipped, and the canvas keeps its size.
\<close>

definition paste_at :: "'a array2 \<Rightarrow> 'a array2 \<Rightarrow> nat \<times> nat \<Rightarrow> 'a array2" where
  "paste_at canvas src pos =
     (case pos of (px, py) \<Rightarrow>
        map (\<lambda>(y, row).
          map (\<lambda>(x, c).
            if py \<le> y \<and> y - py < height src \<and> px \<le> x \<and> x - px < width src
            then src ! (y - py) ! (x - px) else c) (enumerate 0 row))
          (enumerate 0 canvas))"

subsection \<open>add\_outline\<close>

text \<open>
  The alpha band (\<^verbatim>\<open>img.split()[3]\<close>), the binary mask
  (\<^verbatim>\<open>alpha.point(lambda x: 255 if x > 0 else 0)\<close>), its dilation, the outline-only mask
  (\<^verbatim>\<open>np.where((dilated > 0) & (binary == 0), 255, 0)\<close>), the colour layer pasted through
  that mask onto a transparent layer, and the two compositing steps: the outline layer
  over a transparent background, then the image over the result.
\<close>

definition add_outline :: "image \<Rightarrow> int \<Rightarrow> color \<Rightarrow> image" where
  "add_outline img width_px color =
     (let alpha = map (map alpha_of) img;
          binary_mask = map (map (\<lambda>x. if x > 0 then 255 else 0)) alpha;
          dilated = dilate_with_circular_kernel binary_mask width_px;
          outline_array =
            map (\<lambda>(drow, brow). map (\<lambda>(d, b). if d > 0 \<and> b = 0 then 255 else 0) (zip drow brow))
              (zip dilated binary_mask);
          outline_layer = image_new (image_size img) (0, 0, 0, 0);
          outline_color_img = image_new (image_size img) (ink color);
          outline_layer = paste_masked outline_layer outline_color_img outline_array;
          result = image_new (image_size img) (0, 0, 0, 0);
          result = alpha_composite result outline_layer;
          result = alpha_composite result img
      in result)"

text \<open>The binary mask that \<^verbatim>\<open>add_outline\<close> derives from the alpha band, by itself.\<close>

definition binary_of :: "image \<Rightarrow> mask" where
  "binary_of img = map (map (\<lambda>x. if x > 0 then 255 else 0)) (map (map alpha_of) img)"

subsection \<open>Errors\<close>

text \<open>
  The constructors keep apart the places where the run of \<^verbatim>\<open>process_image\<close> can end in
  an exception.
  \<^item> \<open>InvalidOutlineSpec\<close> stands for the \<^verbatim>\<open>ValueError\<close>s of \<^verbatim>\<open>parse_outline_arg\<close>:
    "Invalid outline format" (\<open>BadFormat\<close>), "Invalid hex color" (\<open>BadHexLength\<close>), the
    error of \<^verbatim>\<open>int(..., 16)\<close> (\<open>BadHexDigits\<close>), "Invalid rgb color" (\<open>BadRgb\<close>),
    "Unknown color format" (\<open>UnknownColorFormat\<close>), and the error of \<^verbatim>\<open>int\<close> on a number
    of more digits than Python converts (\<open>NumberTooLong\<close>).
  \<^item> \<open>InvalidPadding\<close> is the \<^verbatim>\<open>ValueError\<close> "Padding ...px is too large for image size
    ...x..." of \<^verbatim>\<open>add_padding\<close>, with the three numbers of the message.
  \<^item> \<open>ArrayTooLarge\<close> is numpy failing to create an array inside the dilation
    (\<^verbatim>\<open>MemoryError\<close>, or \<^verbatim>\<open>ValueError\<close> for dimensions it cannot represent).
  \<^item> \<open>ColorOverflow\<close> is the \<^verbatim>\<open>OverflowError\<close> of \<^verbatim>\<open>Image.new\<close> on a colour component
    that does not fit the C integer Pillow reads it into.
  \<^item> \<open>FileNotFound\<close> is the error of \<^verbatim>\<open>Image.open\<close> on a path that holds no image, and
    \<open>SaveFailed\<close> the \<^verbatim>\<open>OSError\<close> of \<^verbatim>\<open>img.save\<close> on a path that cannot be written.
\<close>

datatype outline_problem =
  BadFormat | BadHexLength | BadHexDigits | BadRgb | UnknownColorFormat | NumberTooLong

datatype error =
  InvalidOutlineSpec outline_problem
  | InvalidPadding int nat nat
  | ArrayTooLarge
  | ColorOverflow
  | FileNotFound
  | SaveFailed

subsection \<open>add\_padding\<close>

text \<open>
  \<^verbatim>\<open>img.resize((w, h), Image.LANCZOS)\<close> is Pillow's resampling; the padding only needs it
  as a function from a raster and a size to a raster, so it is a parameter.
\<close>

type_synonym resizer = "image \<Rightarrow> nat \<times> nat \<Rightarrow> image"

definition add_padding :: "resizer \<Rightarrow> image \<Rightarrow> int \<Rightarrow> error + image" where
  "add_padding resize img padding =
     (if padding \<le> 0 then Inr img
      else
        let (orig_width, orig_height) = image_size img;
            new_content_width = int orig_width - (padding * 2);
            new_content_height = int orig_height - (padding * 2)
        in if new_content_width \<le> 0 \<or> new_content_height \<le> 0
           then Inl (InvalidPadding padding orig_width orig_height)
           else
             let resized = resize img (nat new_content_width, nat new_content_height);
                 canvas = image_new (orig_width, orig_height) (0, 0, 0, 0)
             in Inr (paste_at canvas resized (nat padding, nat padding)))"

subsection \<open>adjust\_brightness\<close>

text \<open>\<^verbatim>\<open>img.split()\<close> and \<^verbatim>\<open>Image.merge\<close>: a raster as its bands, and back.\<close>

definition split_rgba :: "image \<Rightarrow> byte array2 \<times> byte array2 \<times> byte array2 \<times> byte array2" where
  "split_rgba img =
     (map (map (\<lambda>(r, g, b, a). r)) img, map (map (\<lambda>(r, g, b, a). g)) img,
      map (map (\<lambda>(r, g, b, a). b)) img, map (map (\<lambda>(r, g, b, a). a)) img)"

definition merge_rgb ::
  "byte array2 \<Rightarrow> byte array2 \<Rightarrow> byte array2 \<Rightarrow> (byte \<times> byte \<times> byte) array2" where
  "merge_rgb r g b = map (\<lambda>(rr, gr, br). zip rr (zip gr br)) (zip r (zip g b))"

definition split_rgb ::
  "(byte \<times> byte \<times> byte) array2 \<Rightarrow> byte array2 \<times> byte array2 \<times> byte array2" where
  "split_rgb img =
     (map (map (\<lambda>(r, g, b). r)) img, map (map (\<lambda>(r, g, b). g)) img,
      map (map (\<lambda>(r, g, b). b)) img)"

definition merge_rgba ::
  "byte array2 \<Rightarrow> byte array2 \<Rightarrow> byte array2 \<Rightarrow> byte array2 \<Rightarrow> image" where
  "merge_rgba r g b a =
     map (\<lambda>(rr, gr, br, ar). zip rr (zip gr (zip br ar))) (zip r (zip g (zip b a)))"

text \<open>
  Modelled from the spec: \<^verbatim>\<open>ImageEnhance.Brightness(rgb).enhance(factor)\<close> is Pillow's; the
  brightness adjuster's contract gives, for each RGB channel \<open>c\<close> and factor \<open>f\<close>,
  \<open>c' = clamp(round(c * f), 0, 255)\<close>.
\<close>

definition enhance_channel :: "real \<Rightarrow> byte \<Rightarrow> byte" where
  "enhance_channel f c = word_of_int (max 0 (min 255 (round (real_of_int (uint c) * f))))"

definition enhance_brightness ::
  "(byte \<times> byte \<times> byte) array2 \<Rightarrow> real \<Rightarrow> (byte \<times> byte \<times> byte) array2" where
  "enhance_brightness rgb f =
     map (map (\<lambda>(r, g, b). (enhance_channel f r, enhance_channel f g, enhance_channel f b))) rgb"

text \<open>
  The brightness is clamped to \<open>[-100, 100]\<close>; 0 returns the image itself. Both branches
  of the source compute the factor \<open>1.0 + brightness / 100.0\<close> (over the reals here).
\<close>

definition adjust_brightness :: "image \<Rightarrow> int \<Rightarrow> image" where
  "adjust_brightness img brightness0 =
     (let brightness = max (-100) (min 100 brightness0)
      in if brightness = 0 then img
         else
           let (r, g, b, a) = split_rgba img;
               rgb_img = merge_rgb r g b;
               factor = (if brightness > 0 then 1 + real_of_int brightness / 100
                         else 1 + real_of_int brightness / 100);
               brightened = enhance_brightness rgb_img factor;
               (r2, g2, b2) = split_rgb brightened
           in merge_rgba r2 g2 b2 a)"

subsection \<open>parse\_outline\_arg\<close>

text \<open>
  Strings are lists of characters with codes 0..255. On these, the whitespace of
  \<^verbatim>\<open>str.strip\<close> and of \<^verbatim>\<open>\s\<close> is the set below, and \<^verbatim>\<open>\d\<close> is an ASCII digit.
\<close>

definition is_space :: "char \<Rightarrow> bool" where
  "is_space c = (of_char c \<in> {9, 10, 11, 12, 13, 28, 29, 30, 31, 32, 133, 160 :: nat})"

definition is_digit :: "char \<Rightarrow> bool" where
  "is_digit c = (48 \<le> (of_char c :: nat) \<and> (of_char c :: nat) \<le> 57)"

definition strip :: "string \<Rightarrow> string" where
  "strip s = rev (dropWhile is_space (rev (dropWhile is_space s)))"

text \<open>
  \<^verbatim>\<open>int(ds)\<close> for a string of ASCII digits. Python (3.11, with its default
  \<^verbatim>\<open>sys.int_info.default_max_str_digits = 4300\<close>) raises \<^verbatim>\<open>ValueError\<close> on a decimal
  string of more than 4300 digits, leading zeros counted; \<open>None\<close> is that error.
\<close>

definition py_int :: "string \<Rightarrow> int option" where
  "py_int ds =
     (if length ds > 4300 then None
      else Some (foldl (\<lambda>n c. 10 * n + (int (of_char c) - 48)) 0 ds))"

text \<open>
  \<^verbatim>\<open>re.match(r'(\d+)(?:px)?\s+(.+)', s)\<close>, returning the two groups. The digits, the
  optional \<^verbatim>\<open>px\<close> and the whitespace are matched greedily, and a shorter match of the
  digits or of \<^verbatim>\<open>px\<close> cannot succeed where the longest fails (the next character would
  be a digit, or \<^verbatim>\<open>p\<close>). The dot matches every character but the newline. When nothing
  follows the whitespace, the pattern gives whitespace back to \<^verbatim>\<open>(.+)\<close>, the least
  possible; the source strips the string first, so this case does not arise there.
\<close>

definition match_outline :: "string \<Rightarrow> (string \<times> string) option" where
  "match_outline s =
     (let digits = takeWhile is_digit s;
          rest1 = dropWhile is_digit s;
          rest2 = (if take 2 rest1 = ''px'' then drop 2 rest1 else rest1);
          spaces = takeWhile is_space rest2;
          rest3 = dropWhile is_space rest2
      in if digits = [] \<or> spaces = [] then None
         else if rest3 \<noteq> [] then Some (digits, takeWhile (\<lambda>c. c \<noteq> CHR 0x0A) rest3)
         else (case filter (\<lambda>k. spaces ! k \<noteq> CHR 0x0A) (rev [1..<length spaces]) of
                 [] \<Rightarrow> None
               | k # _ \<Rightarrow> Some (digits, takeWhile (\<lambda>c. c \<noteq> CHR 0x0A) (drop k spaces))))"

text \<open>
  \<^verbatim>\<open>int(s, 16)\<close> for a string of two characters, as the source calls it: whitespace around
  the number is ignored, one sign may come first, and what remains must be hexadecimal
  digits (in two characters there is no room for a digit after a \<^verbatim>\<open>0x\<close> prefix or
  around an underscore). The whitespace \<^verbatim>\<open>int\<close> ignores is not that of \<^verbatim>\<open>str.strip\<close>:
  the codes 28..31 are not in it. \<open>None\<close> is the \<^verbatim>\<open>ValueError\<close>. (A power-of-two base has no
  limit on the number of digits.)
\<close>

definition is_int_space :: "char \<Rightarrow> bool" where
  "is_int_space c = (of_char c \<in> {9, 10, 11, 12, 13, 32, 133, 160 :: nat})"

definition hex_value :: "char \<Rightarrow> int option" where
  "hex_value c =
     (let n = (of_char c :: nat)
      in if 48 \<le> n \<and> n \<le> 57 then Some (int n - 48)
         else if 97 \<le> n \<and> n \<le> 102 then Some (int n - 87)
         else if 65 \<le> n \<and> n \<le> 70 then Some (int n - 55)
         else None)"

definition py_int16 :: "string \<Rightarrow> int option" where
  "py_int16 s =
     (let t = rev (dropWhile is_int_space (rev (dropWhile is_int_space s)));
          (sign, body) =
            (case t of
               [] \<Rightarrow> (1, t)
             | c # cs \<Rightarrow> if c = CHR ''-'' then (- 1, cs) else if c = CHR ''+'' then (1, cs) else (1, t))
      in if body = [] \<or> \<not> list_all (\<lambda>c. hex_value c \<noteq> None) body then None
         else Some (sign * foldl (\<lambda>n c. 16 * n + the (hex_value c)) 0 body))"

text \<open>
  \<^verbatim>\<open>re.match(r'rgba?\((\d+),\s*(\d+),\s*(\d+)(?:,\s*(\d+))?\)', s)\<close>, returning the four
  groups; the fourth is \<open>None\<close> when the optional part does not take part in the match.
\<close>

definition expect_char :: "char \<Rightarrow> string \<Rightarrow> string option" where
  "expect_char c s = (case s of [] \<Rightarrow> None | x # xs \<Rightarrow> if x = c then Some xs else None)"

definition digits1 :: "string \<Rightarrow> (string \<times> string) option" where
  "digits1 s =
     (let d = takeWhile is_digit s in if d = [] then None else Some (d, dropWhile is_digit s))"

definition match_rgb :: "string \<Rightarrow> (string \<times> string \<times> string \<times> string option) option" where
  "match_rgb s =
     (if take 3 s \<noteq> ''rgb'' then None
      else
        let s1 = drop 3 s;
            s2 = (if take 1 s1 = ''a'' then drop 1 s1 else s1)
        in case expect_char CHR ''('' s2 of None \<Rightarrow> None | Some s3 \<Rightarrow>
           case digits1 s3 of None \<Rightarrow> None | Some (g1, s4) \<Rightarrow>
           case expect_char CHR '','' s4 of None \<Rightarrow> None | Some s5 \<Rightarrow>
           case digits1 (dropWhile is_space s5) of None \<Rightarrow> None | Some (g2, s6) \<Rightarrow>
           case expect_char CHR '','' s6 of None \<Rightarrow> None | Some s7 \<Rightarrow>
           case digits1 (dropWhile is_space s7) of None \<Rightarrow> None | Some (g3, s8) \<Rightarrow>
           let with_alpha =
                 (case expect_char CHR '','' s8 of None \<Rightarrow> None | Some s9 \<Rightarrow>
                  case digits1 (dropWhile is_space s9) of None \<Rightarrow> None | Some (g4, s10) \<Rightarrow>
                  case expect_char CHR '')'' s10 of None \<Rightarrow> None | Some _ \<Rightarrow> Some g4)
           in case with_alpha of
                Some g4 \<Rightarrow> Some (g1, g2, g3, Some g4)
              | None \<Rightarrow>
                  (case expect_char CHR '')'' s8 of
                     None \<Rightarrow> None
                   | Some _ \<Rightarrow> Some (g1, g2, g3, None)))"

definition parse_outline_arg :: "string \<Rightarrow> error + (int \<times> color)" where
  "parse_outline_arg outline_str =
     (case match_outline (strip outline_str) of
        None \<Rightarrow> Inl (InvalidOutlineSpec BadFormat)
      | Some (group1, group2) \<Rightarrow>
        case py_int group1 of
          None \<Rightarrow> Inl (InvalidOutlineSpec NumberTooLong)
        | Some width_px \<Rightarrow>
          let color_str = strip group2
          in if take 1 color_str = ''#'' then
               let hex_color = dropWhile (\<lambda>c. c = CHR ''#'') color_str;
                   hex_color = (if length hex_color = 3
                                then concat (map (\<lambda>c. [c, c]) hex_color) else hex_color)
               in if length hex_color \<noteq> 6 then Inl (InvalidOutlineSpec BadHexLength)
                  else
                    (case py_int16 (slice hex_color 0 2) of
                       None \<Rightarrow> Inl (InvalidOutlineSpec BadHexDigits)
                     | Some r \<Rightarrow>
                     case py_int16 (slice hex_color 2 4) of
                       None \<Rightarrow> Inl (InvalidOutlineSpec BadHexDigits)
                     | Some g \<Rightarrow>
                     case py_int16 (slice hex_color 4 6) of
                       None \<Rightarrow> Inl (InvalidOutlineSpec BadHexDigits)
                     | Some b \<Rightarrow> Inr (width_px, (r, g, b, 255)))
             else if take 3 color_str = ''rgb'' then
               (case match_rgb color_str of
                  None \<Rightarrow> Inl (InvalidOutlineSpec BadRgb)
                | Some (g1, g2, g3, g4) \<Rightarrow>
                  case py_int g1 of
                    None \<Rightarrow> Inl (InvalidOutlineSpec NumberTooLong)
                  | Some r \<Rightarrow>
                  case py_int g2 of
                    None \<Rightarrow> Inl (InvalidOutlineSpec NumberTooLong)
                  | Some g \<Rightarrow>
                  case py_int g3 of
                    None \<Rightarrow> Inl (InvalidOutlineSpec NumberTooLong)
                  | Some b \<Rightarrow>
                  case g4 of
                    None \<Rightarrow> Inr (width_px, (r, g, b, 255))
                  | Some d \<Rightarrow>
                    (case py_int d of
                       None \<Rightarrow> Inl (InvalidOutlineSpec NumberTooLong)
                     | Some a \<Rightarrow> Inr (width_px, (r, g, b, a))))
             else Inl (InvalidOutlineSpec UnknownColorFormat))"

subsection \<open>What the libraries refuse inside add\_outline\<close>

text \<open>
  \<^verbatim>\<open>add_outline\<close> above is the value the function returns. Two calls inside it can
  raise instead, on numbers that come from the outline string.
  \<^item> The dilation creates arrays whose size grows with the radius: the kernel,
    \<^verbatim>\<open>np.zeros((size, size))\<close> with \<open>size = 2 * radius + 1\<close>, and the padded mask of
    \<^verbatim>\<open>np.pad\<close>, of \<open>height + 2 * radius\<close> rows and \<open>width + 2 * radius\<close> columns. Whether
    numpy can create an array of a given number of cells depends on the machine, so it is
    a parameter. A radius \<open>\<le> 0\<close> returns before any of them.
  \<^item> \<^verbatim>\<open>Image.new('RGBA', size, color)\<close> reads the colour tuple with Pillow's argument
    format \<^verbatim>\<open>"Lii|i"\<close>: the first component as a C \<^verbatim>\<open>long long\<close>, the others as C
    \<^verbatim>\<open>int\<close>; a component out of range raises \<^verbatim>\<open>OverflowError\<close>. (Within the range it is
    clipped to a byte, as \<open>ink\<close> does.)
  The dilation comes first in the function, so its error wins.
\<close>

definition ink_accepted :: "color \<Rightarrow> bool" where
  "ink_accepted c =
     (case c of (r, g, b, a) \<Rightarrow>
        - (2 ^ 63) \<le> r \<and> r < 2 ^ 63
        \<and> - (2 ^ 31) \<le> g \<and> g < 2 ^ 31
        \<and> - (2 ^ 31) \<le> b \<and> b < 2 ^ 31
        \<and> - (2 ^ 31) \<le> a \<and> a < 2 ^ 31)"

definition add_outline_error :: "(nat \<Rightarrow> bool) \<Rightarrow> image \<Rightarrow> int \<Rightarrow> color \<Rightarrow> error option" where
  "add_outline_error can_allocate img width_px color =
     (if 0 < width_px
         \<and> \<not> (can_allocate (nat (2 * width_px + 1) * nat (2 * width_px + 1))
              \<and> can_allocate
                   ((height img + 2 * nat width_px) * (width img + 2 * nat width_px)))
      then Some ArrayTooLarge
      else if \<not> ink_accepted color then Some ColorOverflow
      else None)"

subsection \<open>process\_image\<close>


text \<open>
  The body of the \<^verbatim>\<open>with\<close> block up to the save: the four effects, each behind its own
  \<^verbatim>\<open>if\<close>, each working on the image the one before left. \<^verbatim>\<open>if outline:\<close> is true for a
  string that is neither \<^verbatim>\<open>None\<close> nor empty. An exception leaves the function at once.
  (The list \<^verbatim>\<open>effects_applied\<close> only feeds the printed report, which is not modelled.)
\<close>

definition apply_effects ::
  "resizer \<Rightarrow> (nat \<Rightarrow> bool) \<Rightarrow> image \<Rightarrow> bool \<Rightarrow> int \<Rightarrow> string option \<Rightarrow> int option
     \<Rightarrow> int option \<Rightarrow> error + image" where
  "apply_effects resize can_allocate img0 remove_transparency opacity_threshold outline
       brightness padding =
     (case (if padding \<noteq> None \<and> the padding > 0
            then add_padding resize img0 (the padding) else Inr img0) of
        Inl e \<Rightarrow> Inl e
      | Inr img1 \<Rightarrow>
          let img2 = (if remove_transparency
                      then remove_partial_transparency img1 opacity_threshold else img1);
              img3 = (if brightness \<noteq> None \<and> the brightness \<noteq> 0
                      then adjust_brightness img2 (the brightness) else img2)
          in if outline \<noteq> None \<and> the outline \<noteq> []
             then (case parse_outline_arg (the outline) of
                     Inl e \<Rightarrow> Inl e
                   | Inr (width_px, color) \<Rightarrow>
                       (case add_outline_error can_allocate img3 width_px color of
                          Some e \<Rightarrow> Inl e
                        | None \<Rightarrow> Inr (add_outline img3 width_px color)))
             else Inr img3)"





subsection \<open>The pipeline as the specification words it\<close>

text \<open>
  A stage is one effect with its parameters fixed. The specification describes the
  pipeline as the requested stages, in the order padding, alpha normalisation, brightness,
  outline, each applied to the output of the one before; a stage that is not requested is
  not in the list. A stage is requested under the condition of its \<^verbatim>\<open>if\<close> in
  \<^verbatim>\<open>process_image\<close>.
\<close>

type_synonym stage = "image \<Rightarrow> error + image"

definition padding_stage :: "resizer \<Rightarrow> int \<Rightarrow> stage" where
  "padding_stage resize p = (\<lambda>img. add_padding resize img p)"

definition normalize_stage :: "int \<Rightarrow> stage" where
  "normalize_stage t = (\<lambda>img. Inr (remove_partial_transparency img t))"

definition brightness_stage :: "int \<Rightarrow> stage" where
  "brightness_stage d = (\<lambda>img. Inr (adjust_brightness img d))"

definition outline_stage :: "(nat \<Rightarrow> bool) \<Rightarrow> string \<Rightarrow> stage" where
  "outline_stage can_allocate s =
     (\<lambda>img. case parse_outline_arg s of
              Inl e \<Rightarrow> Inl e
            | Inr (width_px, color) \<Rightarrow>
                (case add_outline_error can_allocate img width_px color of
                   Some e \<Rightarrow> Inl e
                 | None \<Rightarrow> Inr (add_outline img width_px color)))"

definition requested_stages ::
  "resizer \<Rightarrow> (nat \<Rightarrow> bool) \<Rightarrow> bool \<Rightarrow> int \<Rightarrow> string option \<Rightarrow> int option \<Rightarrow> int option
     \<Rightarrow> stage list" where
  "requested_stages resize can_allocate remove_transparency opacity_threshold outline
       brightness padding =
     (case padding of None \<Rightarrow> [] | Some p \<Rightarrow> if p > 0 then [padding_stage resize p] else [])
     @ (if remove_transparency then [normalize_stage opacity_threshold] else [])
     @ (case brightness of None \<Rightarrow> [] | Some d \<Rightarrow> if d \<noteq> 0 then [brightness_stage d] else [])
     @ (case outline of
          None \<Rightarrow> []
        | Some s \<Rightarrow> if s \<noteq> [] then [outline_stage can_allocate s] else [])"

fun run_stages :: "stage list \<Rightarrow> image \<Rightarrow> error + image" where
  "run_stages [] img = Inr img"
| "run_stages (st # sts) img = (case st img of Inl e \<Rightarrow> Inl e | Inr img' \<Rightarrow> run_stages sts img')"

section \<open>Properties\<close>

subsection \<open>Alpha normalisation\<close>

lemma uint_pos_iff: "0 < uint (a::byte) \<longleftrightarrow> a \<noteq> 0"
  by (metis uint_0_iff uint_ge_0 order_less_le)

lemma normalize_pixel_cases:
  "normalize_pixel t (r, g, b, a) =
     (if t \<le> uint a \<and> a \<noteq> 0 then (a, a, a, 255) else (r, g, b, a))"
  by (simp add: normalize_pixel_def uint_pos_iff)

text \<open>
  C3. For every RGBA grid and every threshold, the alpha normaliser keeps the dimensions
  and maps each pixel \<open>(r, g, b, a)\<close> with \<open>a \<ge> t\<close> and \<open>a > 0\<close> to \<open>(a, a, a, 255)\<close>; every
  other pixel is left exactly as it was. The statement holds for every integer
  threshold, so in particular for those in 0..255. With threshold 128 the pixel
  (100, 150, 200, 200) becomes (200, 200, 200, 255) and (100, 150, 200, 64) stays.
\<close>

theorem remove_partial_transparency_pixelwise:
  "remove_partial_transparency img t =
     map (map (\<lambda>(r, g, b, a).
       if uint a \<ge> t \<and> uint a > 0 then (a, a, a, 255) else (r, g, b, a))) img
   \<and> length (remove_partial_transparency img t) = length img
   \<and> map length (remove_partial_transparency img t) = map length img
   \<and> remove_partial_transparency [[(100, 150, 200, 200), (100, 150, 200, 64)]] 128
       = [[(200, 200, 200, 255), (100, 150, 200, 64)]]"
proof -
  have fn: "normalize_pixel t =
      (\<lambda>(r, g, b, a). if uint a \<ge> t \<and> uint a > 0 then (a, a, a, 255) else (r, g, b, a))"
    by (rule ext) (simp add: normalize_pixel_def split: prod.splits)
  have "remove_partial_transparency img t =
     map (map (\<lambda>(r, g, b, a).
       if uint a \<ge> t \<and> uint a > 0 then (a, a, a, 255) else (r, g, b, a))) img"
    by (simp add: remove_partial_transparency_def fn)
  moreover have "length (remove_partial_transparency img t) = length img"
    by (simp add: remove_partial_transparency_def)
  moreover have "map length (remove_partial_transparency img t) = map length img"
    by (simp add: remove_partial_transparency_def comp_def)
  moreover have "remove_partial_transparency [[(100, 150, 200, 200), (100, 150, 200, 64)]] 128
       = [[(200, 200, 200, 255), (100, 150, 200, 64)]]"
    by (simp add: remove_partial_transparency_def normalize_pixel_def)
  ultimately show ?thesis by blast
qed

subsection \<open>The circular kernel and dilation\<close>

text \<open>The square-root test of the kernel is the integer test \<open>dx\<^sup>2 + dy\<^sup>2 \<le> r\<^sup>2\<close>.\<close>

lemma kernel_cell_iff:
  assumes "0 \<le> r"
  shows "kernel_cell r x y \<noteq> 0 \<longleftrightarrow> (int x - r)\<^sup>2 + (int y - r)\<^sup>2 \<le> r\<^sup>2"
proof -
  let ?d = "(int x - r)\<^sup>2 + (int y - r)\<^sup>2"
  have "sqrt (real_of_int ?d) \<le> real_of_int r \<longleftrightarrow> sqrt (real_of_int ?d) \<le> sqrt ((real_of_int r)\<^sup>2)"
    using assms by simp
  also have "\<dots> \<longleftrightarrow> real_of_int ?d \<le> (real_of_int r)\<^sup>2"
    by (rule real_sqrt_le_iff)
  also have "\<dots> \<longleftrightarrow> ?d \<le> r\<^sup>2"
    by (metis of_int_le_iff of_int_power)
  finally show ?thesis
    by (simp add: kernel_cell_def Let_def)
qed

lemma kernel_cell_code:
  "0 \<le> r \<Longrightarrow> kernel_cell r x y = (if (int x - r)\<^sup>2 + (int y - r)\<^sup>2 \<le> r\<^sup>2 then 1 else 0)"
  using kernel_cell_iff[of r x y] by (auto simp: kernel_cell_def Let_def)

lemma rect_nth: "rect g \<Longrightarrow> y < length g \<Longrightarrow> length (g ! y) = width g"
  by (simp add: rect_def list_all_length)

lemma length_kernel: "length (create_circular_kernel r) = nat (2 * r + 1)"
  by (simp add: create_circular_kernel_def Let_def mult.commute)

lemma kernel_row_length:
  "dy < nat (2 * r + 1) \<Longrightarrow> length (create_circular_kernel r ! dy) = nat (2 * r + 1)"
  by (simp add: create_circular_kernel_def Let_def mult.commute)

lemma kernel_nth:
  "dy < nat (2 * r + 1) \<Longrightarrow> dx < nat (2 * r + 1) \<Longrightarrow>
     create_circular_kernel r ! dy ! dx = kernel_cell r dx dy"
  by (simp add: create_circular_kernel_def Let_def mult.commute)

lemma length_np_pad: "length (np_pad a p) = height a + 2 * p"
  by (simp add: np_pad_def Let_def height_def)

lemma np_pad_row:
  assumes "y < height a + 2 * p"
  shows "np_pad a p ! y =
     (if p \<le> y \<and> y < p + height a then replicate p 0 @ a ! (y - p) @ replicate p 0
      else replicate (width a + 2 * p) 0)"
proof -
  consider "y < p" | "p \<le> y" "y < p + height a" | "p + height a \<le> y" by linarith
  then show ?thesis
  proof cases
    case 1
    then show ?thesis by (simp add: np_pad_def Let_def nth_append)
  next
    case 2
    then have "y - p < length a" by (auto simp: height_def)
    with 2 show ?thesis by (simp add: np_pad_def Let_def nth_append height_def)
  next
    case 3
    then have "\<not> y - p < length a" "\<not> y < p" by (auto simp: height_def)
    with 3 show ?thesis using assms by (simp add: np_pad_def Let_def nth_append height_def)
  qed
qed

lemma np_pad_row_length:
  assumes "rect a" "y < height a + 2 * p"
  shows "length (np_pad a p ! y) = width a + 2 * p"
proof (cases "p \<le> y \<and> y < p + height a")
  case True
  then have "y - p < length a" by (auto simp: height_def)
  then have "length (a ! (y - p)) = width a" using assms(1) by (rule rect_nth[rotated])
  with True show ?thesis by (simp add: np_pad_row assms(2))
next
  case False
  then show ?thesis by (auto simp: np_pad_row assms(2))
qed

lemma np_pad_nth:
  assumes "rect a" "y < height a + 2 * p" "x < width a + 2 * p"
  shows "np_pad a p ! y ! x =
     (if p \<le> y \<and> y < p + height a \<and> p \<le> x \<and> x < p + width a
      then a ! (y - p) ! (x - p) else 0)"
proof (cases "p \<le> y \<and> y < p + height a")
  case True
  then have "y - p < length a" by (auto simp: height_def)
  then have len: "length (a ! (y - p)) = width a"
    using assms(1) by (rule rect_nth[rotated])
  show ?thesis using True assms(3) by (auto simp: np_pad_row assms(2) nth_append len)
next
  case False
  then show ?thesis using assms by (auto simp: np_pad_row)
qed

lemma list_ex_zip:
  "list_ex P (zip xs ys) \<longleftrightarrow> (\<exists>i<min (length xs) (length ys). P (xs ! i, ys ! i))"
  by (auto simp: list_ex_iff set_zip)

lemma length_slice2: "y0 + k \<le> length a \<Longrightarrow> length (slice2 a y0 (y0 + k) x0 x1) = k"
  by (simp add: slice2_def slice_def)

lemma slice2_row:
  "y0 + k \<le> length a \<Longrightarrow> dy < k \<Longrightarrow>
     slice2 a y0 (y0 + k) x0 x1 ! dy = slice (a ! (y0 + dy)) x0 x1"
  by (simp add: slice2_def slice_def)

lemma slice_nth: "x0 + k \<le> length xs \<Longrightarrow> dx < k \<Longrightarrow> slice xs x0 (x0 + k) ! dx = xs ! (x0 + dx)"
  by (simp add: slice_def)

lemma length_slice: "x0 + k \<le> length xs \<Longrightarrow> length (slice xs x0 (x0 + k)) = k"
  by (simp add: slice_def)

lemma dilate_cell:
  assumes "rect m" "0 < r" "y < height m" "x < width m"
  shows "dilate_with_circular_kernel m r ! y ! x =
     (if \<exists>dy<nat (2 * r + 1). \<exists>dx<nat (2 * r + 1).
           create_circular_kernel r ! dy ! dx > 0
           \<and> nat r \<le> y + dy \<and> y + dy < nat r + height m
           \<and> nat r \<le> x + dx \<and> x + dx < nat r + width m
           \<and> m ! (y + dy - nat r) ! (x + dx - nat r) > 0
      then 255 else 0)"
proof -
  define k where "k = nat (2 * r + 1)"
  define p where "p = nat r"
  define padded where "padded = np_pad m p"
  define kern where "kern = create_circular_kernel r"
  define region where "region = slice2 padded y (y + k) x (x + k)"
  have k: "k = 2 * p + 1" using assms(2) by (simp add: k_def p_def nat_add_distrib nat_mult_distrib)
  have lk: "length kern = k" by (simp add: kern_def k_def length_kernel)
  have lp: "length padded = height m + 2 * p" by (simp add: padded_def length_np_pad)
  have yk: "y + k \<le> length padded" using assms(3) by (simp add: lp k)
  have lr: "length region = k" using yk by (simp add: region_def length_slice2)
  have row: "region ! dy = slice (padded ! (y + dy)) x (x + k)" if "dy < k" for dy
    using yk that by (simp add: region_def slice2_row)
  have prl: "length (padded ! (y + dy)) = width m + 2 * p" if "dy < k" for dy
    using that assms(1,3) by (simp add: padded_def np_pad_row_length k)
  have xk: "x + k \<le> width m + 2 * p" using assms(4) by (simp add: k)
  have rl: "length (region ! dy) = k" if "dy < k" for dy
    using that xk by (simp add: row length_slice prl)
  have cell: "region ! dy ! dx =
      (if p \<le> y + dy \<and> y + dy < p + height m \<and> p \<le> x + dx \<and> x + dx < p + width m
       then m ! (y + dy - p) ! (x + dx - p) else 0)" if "dy < k" "dx < k" for dy dx
  proof -
    have "region ! dy ! dx = padded ! (y + dy) ! (x + dx)"
      using that xk by (simp add: row slice_nth prl)
    also have "\<dots> = (if p \<le> y + dy \<and> y + dy < p + height m \<and> p \<le> x + dx \<and> x + dx < p + width m
       then m ! (y + dy - p) ! (x + dx - p) else 0)"
      unfolding padded_def using that assms(1,3,4) by (intro np_pad_nth) (simp_all add: k)
    finally show ?thesis .
  qed
  have any: "np_any_overlap region kern \<longleftrightarrow>
      (\<exists>dy<k. \<exists>dx<k. kern ! dy ! dx > 0
           \<and> p \<le> y + dy \<and> y + dy < p + height m
           \<and> p \<le> x + dx \<and> x + dx < p + width m
           \<and> m ! (y + dy - p) ! (x + dx - p) > 0)" (is "?L \<longleftrightarrow> ?R")
  proof
    assume ?L
    then obtain dy where dy: "dy < k"
      and ex: "list_ex (\<lambda>(a, b). a > 0 \<and> b > 0) (zip (region ! dy) (kern ! dy))"
      by (auto simp: np_any_overlap_def list_ex_zip lr lk)
    from ex dy obtain dx where dx: "dx < k" and pos: "region ! dy ! dx > 0" "kern ! dy ! dx > 0"
      by (auto simp: list_ex_zip rl kern_def kernel_row_length k_def)
    from pos(1) have "p \<le> y + dy \<and> y + dy < p + height m \<and> p \<le> x + dx \<and> x + dx < p + width m
        \<and> m ! (y + dy - p) ! (x + dx - p) > 0"
      by (simp add: cell[OF dy dx] split: if_splits)
    with dy dx pos(2) show ?R by blast
  next
    assume ?R
    then obtain dy dx where dy: "dy < k" and dx: "dx < k" and kpos: "kern ! dy ! dx > 0"
      and inb: "p \<le> y + dy \<and> y + dy < p + height m \<and> p \<le> x + dx \<and> x + dx < p + width m"
      and mpos: "m ! (y + dy - p) ! (x + dx - p) > 0"
      by blast
    have "region ! dy ! dx > 0" using inb mpos by (simp add: cell[OF dy dx])
    with kpos dx have "list_ex (\<lambda>(a, b). a > 0 \<and> b > 0) (zip (region ! dy) (kern ! dy))"
      using dy by (auto simp: list_ex_zip rl kern_def kernel_row_length k_def)
    with dy show ?L
      by (auto simp: np_any_overlap_def list_ex_zip lr lk)
  qed
  have "dilate_with_circular_kernel m r ! y ! x = (if np_any_overlap region kern then 255 else 0)"
    using assms(2,3,4)
    by (simp add: dilate_with_circular_kernel_def Let_def region_def padded_def kern_def
        p_def k_def length_kernel height_def)
  then show ?thesis
    by (simp only: any) (simp add: k_def p_def kern_def)
qed

lemma dilate_noop: "r \<le> 0 \<Longrightarrow> dilate_with_circular_kernel m r = m"
  by (simp add: dilate_with_circular_kernel_def)

lemma height_dilate: "height (dilate_with_circular_kernel m r) = height m"
  by (simp add: dilate_with_circular_kernel_def Let_def height_def)

lemma dilate_row_length:
  "0 < r \<Longrightarrow> y < height m \<Longrightarrow> length (dilate_with_circular_kernel m r ! y) = width m"
  by (simp add: dilate_with_circular_kernel_def Let_def height_def)

lemma width_nth0: "g \<noteq> [] \<Longrightarrow> width g = length (g ! 0)"
  by (cases g) (simp_all add: width_def)

lemma width_dilate: "width (dilate_with_circular_kernel m r) = width m"
proof (cases "r \<le> 0 \<or> m = []")
  case True
  then show ?thesis
    by (auto simp: dilate_with_circular_kernel_def Let_def height_def width_def)
next
  case False
  then have r: "0 < r" and h: "0 < height m" by (simp_all add: height_def)
  then have "dilate_with_circular_kernel m r \<noteq> []"
    using height_dilate[of m r] by (auto simp: height_def)
  then have "width (dilate_with_circular_kernel m r) = length (dilate_with_circular_kernel m r ! 0)"
    by (rule width_nth0)
  also have "\<dots> = width m" using r h by (rule dilate_row_length)
  finally show ?thesis .
qed

lemma rect_dilate: "rect m \<Longrightarrow> rect (dilate_with_circular_kernel m r)"
proof (cases "r \<le> 0")
  case True
  then show "rect m \<Longrightarrow> ?thesis" by (simp add: dilate_noop)
next
  case False
  then have r: "0 < r" by simp
  have "length (dilate_with_circular_kernel m r ! y) = width (dilate_with_circular_kernel m r)"
    if "y < length (dilate_with_circular_kernel m r)" for y
    using that height_dilate[of m r] dilate_row_length[OF r, of y m]
    by (simp add: width_dilate height_def)
  then show ?thesis by (simp add: rect_def list_all_length)
qed

lemma kernel_zero: "create_circular_kernel 0 = [[1]]"
  by (simp add: create_circular_kernel_def kernel_cell_def)

lemma dilate_cell_pos:
  assumes "rect m" "0 \<le> r" "y < height m" "x < width m"
  shows "dilate_with_circular_kernel m r ! y ! x > 0 \<longleftrightarrow>
     (\<exists>dy<nat (2 * r + 1). \<exists>dx<nat (2 * r + 1).
           create_circular_kernel r ! dy ! dx > 0
           \<and> nat r \<le> y + dy \<and> y + dy < nat r + height m
           \<and> nat r \<le> x + dx \<and> x + dx < nat r + width m
           \<and> m ! (y + dy - nat r) ! (x + dx - nat r) > 0)"
proof (cases "r = 0")
  case True
  then show ?thesis using assms(3,4) by (simp add: dilate_noop kernel_zero)
next
  case False
  then have "0 < r" using assms(2) by simp
  from dilate_cell[OF assms(1) this assms(3,4)] show ?thesis
    by (simp split: if_splits)
qed

lemma dilate_extensive_cell:
  assumes "rect m" "0 \<le> r" "y < height m" "x < width m" "m ! y ! x > 0"
  shows "dilate_with_circular_kernel m r ! y ! x > 0"
proof -
  have k: "nat r < nat (2 * r + 1)" using assms(2) by simp
  have "kernel_cell r (nat r) (nat r) \<noteq> 0"
    using assms(2) by (simp add: kernel_cell_iff)
  then have "create_circular_kernel r ! nat r ! nat r > 0"
    using k by (simp add: kernel_nth word_greater_zero_iff)
  with assms(3,4,5) k show ?thesis
    unfolding dilate_cell_pos[OF assms(1-4)]
    by (intro exI[of _ "nat r"] conjI) simp_all
qed

lemma dilate_mono_cell:
  assumes "rect m" "0 \<le> r1" "r1 \<le> r2" "y < height m" "x < width m"
    and "dilate_with_circular_kernel m r1 ! y ! x > 0"
  shows "dilate_with_circular_kernel m r2 ! y ! x > 0"
proof -
  have r2: "0 \<le> r2" using assms(2,3) by simp
  from assms(6) obtain dy dx where dy: "dy < nat (2 * r1 + 1)" and dx: "dx < nat (2 * r1 + 1)"
    and kpos: "create_circular_kernel r1 ! dy ! dx > 0"
    and inb: "nat r1 \<le> y + dy" "y + dy < nat r1 + height m"
             "nat r1 \<le> x + dx" "x + dx < nat r1 + width m"
    and mpos: "m ! (y + dy - nat r1) ! (x + dx - nat r1) > 0"
    unfolding dilate_cell_pos[OF assms(1,2,4,5)] by blast
  define e where "e = nat (r2 - r1)"
  have e: "int e = r2 - r1" using assms(3) by (simp add: e_def)
  have n2: "nat r2 = nat r1 + e" using assms(2,3) by (simp add: e_def)
  have dy': "dy + e < nat (2 * r2 + 1)" and dx': "dx + e < nat (2 * r2 + 1)"
    using dy dx assms(2,3) by (simp_all add: e_def)
  have "kernel_cell r1 dx dy \<noteq> 0"
    using kpos dy dx by (simp add: kernel_nth word_greater_zero_iff)
  then have d1: "(int dx - r1)\<^sup>2 + (int dy - r1)\<^sup>2 \<le> r1\<^sup>2"
    using assms(2) by (simp add: kernel_cell_iff)
  have "r1\<^sup>2 \<le> r2\<^sup>2" using assms(2,3) by (rule power_mono[rotated])
  moreover have sx: "int (dx + e) - r2 = int dx - r1" and sy: "int (dy + e) - r2 = int dy - r1"
    using e by simp_all
  ultimately have "(int (dx + e) - r2)\<^sup>2 + (int (dy + e) - r2)\<^sup>2 \<le> r2\<^sup>2"
    using d1 unfolding sx sy by linarith
  then have "kernel_cell r2 (dx + e) (dy + e) \<noteq> 0"
    using r2 by (simp add: kernel_cell_iff)
  then have k2: "create_circular_kernel r2 ! (dy + e) ! (dx + e) > 0"
    using dy' dx' by (simp add: kernel_nth word_greater_zero_iff)
  have idx: "y + (dy + e) - nat r2 = y + dy - nat r1" "x + (dx + e) - nat r2 = x + dx - nat r1"
    using n2 by simp_all
  show ?thesis
    unfolding dilate_cell_pos[OF assms(1) r2 assms(4,5)]
    using dy' dx' k2 inb mpos n2
    by (intro exI[of _ "dy + e"] exI[of _ "dx + e"] conjI) (simp_all add: idx)
qed

lemma offset_conv:
  assumes "0 \<le> r"
  shows "(0 \<le> int a + int d - r) = (nat r \<le> a + d)"
    and "(int a + int d - r < int n) = (a + d < nat r + n)"
    and "nat (int a + int d - r) = a + d - nat r"
  using assms by auto

text \<open>
  C1. For every rectangular mask \<open>m\<close> and every radius \<open>r\<close>, the dilated mask has the height
  and width of \<open>m\<close>. For \<open>r \<ge> 0\<close>, its cell \<open>(x, y)\<close> is set iff some kernel offset
  \<open>(dx, dy)\<close> has the kernel cell set and the mask cell at \<open>(x + dx - r, y + dy - r)\<close> is inside
  the mask and set; positions outside the mask count as unset, nothing wraps around and the
  mask does not grow. For \<open>r \<le> 0\<close> the result is \<open>m\<close> itself.
\<close>

theorem dilate_with_circular_kernel_cells:
  assumes "rect m"
  shows "height (dilate_with_circular_kernel m r) = height m
    \<and> width (dilate_with_circular_kernel m r) = width m
    \<and> rect (dilate_with_circular_kernel m r)
    \<and> (0 \<le> r \<longrightarrow> (\<forall>y<height m. \<forall>x<width m.
          (dilate_with_circular_kernel m r ! y ! x > 0) =
          (\<exists>dy<nat (2 * r + 1). \<exists>dx<nat (2 * r + 1).
              create_circular_kernel r ! dy ! dx > 0
            \<and> 0 \<le> int y + int dy - r \<and> int y + int dy - r < int (height m)
            \<and> 0 \<le> int x + int dx - r \<and> int x + int dx - r < int (width m)
            \<and> m ! nat (int y + int dy - r) ! nat (int x + int dx - r) > 0)))
    \<and> (r \<le> 0 \<longrightarrow> dilate_with_circular_kernel m r = m)"
proof (intro conjI impI allI)
  show "height (dilate_with_circular_kernel m r) = height m" by (rule height_dilate)
  show "width (dilate_with_circular_kernel m r) = width m" by (rule width_dilate)
  show "rect (dilate_with_circular_kernel m r)" using assms by (rule rect_dilate)
  show "dilate_with_circular_kernel m r = m" if "r \<le> 0" using that by (rule dilate_noop)
  fix y x
  assume r: "0 \<le> r" and y: "y < height m" and x: "x < width m"
  show "(dilate_with_circular_kernel m r ! y ! x > 0) =
          (\<exists>dy<nat (2 * r + 1). \<exists>dx<nat (2 * r + 1).
              create_circular_kernel r ! dy ! dx > 0
            \<and> 0 \<le> int y + int dy - r \<and> int y + int dy - r < int (height m)
            \<and> 0 \<le> int x + int dx - r \<and> int x + int dx - r < int (width m)
            \<and> m ! nat (int y + int dy - r) ! nat (int x + int dx - r) > 0)"
    unfolding dilate_cell_pos[OF assms r y x] offset_conv[OF r] ..
qed

theorem dilate_with_circular_kernel_cells_witness:
  "rect [[0, 0, 0], [0, 255, 0], [0, 0, 0], [0, 0, 0 :: byte]]
   \<and> height (dilate_with_circular_kernel [[0, 0, 0], [0, 255, 0], [0, 0, 0], [0, 0, 0]] 1) = 4
   \<and> width (dilate_with_circular_kernel [[0, 0, 0], [0, 255, 0], [0, 0, 0], [0, 0, 0]] 1) = 3
   \<and> dilate_with_circular_kernel [[0, 0, 0], [0, 255, 0], [0, 0, 0], [0, 0, 0]] 1 ! 0 ! 1 > 0
   \<and> \<not> dilate_with_circular_kernel [[0, 0, 0], [0, 255, 0], [0, 0, 0], [0, 0, 0]] 1 ! 3 ! 1 > 0
   \<and> dilate_with_circular_kernel [[0, 0, 0], [0, 255, 0], [0, 0, 0], [0, 0, 0]] 0
       = [[0, 0, 0], [0, 255, 0], [0, 0, 0], [0, 0, 0]]"
proof -
  let ?m = "[[0, 0, 0], [0, 255, 0], [0, 0, 0], [0, 0, 0 :: byte]]"
  have rm: "rect ?m" by (simp add: rect_def width_def)
  have hm: "height ?m = 4" and wm: "width ?m = 3" by (simp_all add: height_def width_def)
  note spec1 = dilate_with_circular_kernel_cells[OF rm, of 1]
  note spec0 = dilate_with_circular_kernel_cells[OF rm, of 0]
  have k1: "create_circular_kernel 1 = [[0, 1, 0], [1, 1, 1], [0, 1, 0]]"
    by (simp add: create_circular_kernel_def kernel_cell_code upt_rec)
  have cell: "(dilate_with_circular_kernel ?m 1 ! y ! x > 0) =
          (\<exists>dy<3. \<exists>dx<3.
              create_circular_kernel 1 ! dy ! dx > 0
            \<and> 0 \<le> int y + int dy - 1 \<and> int y + int dy - 1 < 4
            \<and> 0 \<le> int x + int dx - 1 \<and> int x + int dx - 1 < 3
            \<and> ?m ! nat (int y + int dy - 1) ! nat (int x + int dx - 1) > 0)"
    if "y < 4" "x < 3" for y x
    using spec1 that by (simp add: hm wm)
  have a: "dilate_with_circular_kernel ?m 1 ! 0 ! 1 > 0"
  proof -
    have "0 < (3::nat)" "1 < (3::nat)" by simp_all
    then show ?thesis
      by (subst cell) (simp, simp, rule exI[of _ 2], simp add: k1, rule exI[of _ 1], simp)
  qed
  have b: "\<not> dilate_with_circular_kernel ?m 1 ! 3 ! 1 > 0"
    by (subst cell) (auto simp: k1 less_Suc_eq numeral_3_eq_3 nth_Cons')
  show ?thesis using rm spec1 spec0 a b by (simp add: hm wm)
qed

lemma dilate_example_r1:
  "dilate_with_circular_kernel [[255, 0, 0, 0 :: byte]] 1 = [[255, 255, 0, 0]]"
  by (simp add: dilate_with_circular_kernel_def create_circular_kernel_def kernel_cell_code
      upt_rec height_def width_def np_pad_def slice2_def slice_def np_any_overlap_def Let_def)

text \<open>
  C10. Dilation is extensive: for every rectangular mask \<open>m\<close> and every radius \<open>r \<ge> 0\<close>,
  every cell set in \<open>m\<close> is set in the dilated mask (the centre cell of the kernel is set
  for every radius).
\<close>

theorem dilate_extensive:
  assumes "rect m" "0 \<le> r"
  shows "\<forall>y<height m. \<forall>x<width m.
     m ! y ! x > 0 \<longrightarrow> dilate_with_circular_kernel m r ! y ! x > 0"
  using assms by (blast intro: dilate_extensive_cell)

theorem dilate_extensive_witness:
  "rect [[255, 0, 0, 0 :: byte]] \<and> (0::int) \<le> 2
   \<and> [[255, 0, 0, 0 :: byte]] ! 0 ! 0 > 0
   \<and> dilate_with_circular_kernel [[255, 0, 0, 0]] 2 ! 0 ! 0 > 0"
proof -
  have rm: "rect [[255, 0, 0, 0 :: byte]]" by (simp add: rect_def width_def)
  have "dilate_with_circular_kernel [[255, 0, 0, 0]] 2 ! 0 ! 0 > 0"
    using dilate_extensive[OF rm, of 2] by (simp add: height_def width_def)
  with rm show ?thesis by simp
qed

text \<open>
  C7. Dilation is monotone in the radius: for every rectangular mask \<open>m\<close> and radii
  \<open>0 \<le> r1 \<le> r2\<close>, every cell set in the dilation by \<open>r1\<close> is set in the dilation by \<open>r2\<close>.
\<close>

theorem dilate_monotone:
  assumes "rect m" "0 \<le> r1" "r1 \<le> r2"
  shows "\<forall>y<height m. \<forall>x<width m.
     dilate_with_circular_kernel m r1 ! y ! x > 0 \<longrightarrow> dilate_with_circular_kernel m r2 ! y ! x > 0"
  using assms by (blast intro: dilate_mono_cell)

theorem dilate_monotone_witness:
  "rect [[255, 0, 0, 0 :: byte]] \<and> (0::int) \<le> 1 \<and> (1::int) \<le> 2
   \<and> dilate_with_circular_kernel [[255, 0, 0, 0]] 1 ! 0 ! 1 > 0
   \<and> dilate_with_circular_kernel [[255, 0, 0, 0]] 2 ! 0 ! 1 > 0"
proof -
  have rm: "rect [[255, 0, 0, 0 :: byte]]" by (simp add: rect_def width_def)
  have one: "dilate_with_circular_kernel [[255, 0, 0, 0]] 1 ! 0 ! 1 > 0"
    by (simp add: dilate_example_r1)
  have "dilate_with_circular_kernel [[255, 0, 0, 0]] 2 ! 0 ! 1 > 0"
    using dilate_monotone[OF rm, of 1 2] one by (simp add: height_def width_def)
  with rm one show ?thesis by simp
qed

text \<open>The kernel cell as an integer test, for every radius; this is what evaluation uses.\<close>

lemma kernel_cell_int [code]:
  "kernel_cell r x y = (if 0 \<le> r \<and> (int x - r)\<^sup>2 + (int y - r)\<^sup>2 \<le> r\<^sup>2 then 1 else 0)"
proof (cases "0 \<le> r")
  case True
  then show ?thesis by (simp add: kernel_cell_code)
next
  case False
  have "0 \<le> sqrt (real_of_int ((int x - r)\<^sup>2 + (int y - r)\<^sup>2))" by simp
  with False have "\<not> sqrt (real_of_int ((int x - r)\<^sup>2 + (int y - r)\<^sup>2)) \<le> real_of_int r"
    by linarith
  with False show ?thesis by (simp add: kernel_cell_def Let_def)
qed
subsection \<open>Alpha normalisation, applied twice\<close>

lemma uint_byte_le: "uint (a::byte) \<le> 255"
  using uint_lt2p[of a] by simp

lemma normalize_pixel_twice:
  "normalize_pixel t (normalize_pixel t (r, g, b, a)) =
     (if t \<le> uint a \<and> 0 < uint a then (255, 255, 255, 255) else (r, g, b, a))"
  using uint_byte_le[of a] by (simp add: normalize_pixel_def)

lemma normalize_pixel_twice_eq:
  "normalize_pixel t (normalize_pixel t (r, g, b, a)) = normalize_pixel t (r, g, b, a)
     \<longleftrightarrow> (a = 255 \<or> uint a < t \<or> a = 0)"
  using uint_byte_le[of a] by (auto simp: normalize_pixel_def uint_pos_iff)

lemma normalize_pixel_twice_eq_case:
  "(normalize_pixel t (normalize_pixel t p) = normalize_pixel t p)
     = (case p of (r, g, b, a) \<Rightarrow> a = 255 \<or> uint a < t \<or> a = 0)"
  by (cases p) (simp add: normalize_pixel_twice_eq)

text \<open>
  C2 as stated (the normaliser is idempotent) fails: the pixel (100, 150, 200, 200) with
  threshold 128 becomes (200, 200, 200, 255) in the first pass and (255, 255, 255, 255) in
  the second, since the first pass stores the old alpha in the colour channels and the
  second pass reads the new alpha, 255.
\<close>

theorem remove_partial_transparency_twice_counterexample:
  "remove_partial_transparency (remove_partial_transparency [[(100, 150, 200, 200)]] 128) 128
     \<noteq> remove_partial_transparency [[(100, 150, 200, 200)]] 128"
  by (simp add: remove_partial_transparency_def normalize_pixel_def)

text \<open>
  C2, amended. For every RGBA grid and every threshold, two passes of the normaliser turn
  each pixel with alpha \<open>a \<ge> t\<close> and \<open>a > 0\<close> into (255, 255, 255, 255) and leave every other
  pixel unchanged; two passes equal one pass exactly when every pixel of the grid has
  alpha 255, alpha below the threshold, or alpha 0.
\<close>

theorem remove_partial_transparency_twice:
  "remove_partial_transparency (remove_partial_transparency img t) t =
     map (map (\<lambda>(r, g, b, a).
       if uint a \<ge> t \<and> uint a > 0 then (255, 255, 255, 255) else (r, g, b, a))) img
   \<and> ((remove_partial_transparency (remove_partial_transparency img t) t
         = remove_partial_transparency img t)
      = list_all (list_all (\<lambda>(r, g, b, a). a = 255 \<or> uint a < t \<or> a = 0)) img)"
proof
  have "normalize_pixel t \<circ> normalize_pixel t =
      (\<lambda>(r, g, b, a). if uint a \<ge> t \<and> uint a > 0 then (255, 255, 255, 255) else (r, g, b, a))"
    by (rule ext) (simp add: normalize_pixel_twice split: prod.splits)
  then show "remove_partial_transparency (remove_partial_transparency img t) t =
     map (map (\<lambda>(r, g, b, a).
       if uint a \<ge> t \<and> uint a > 0 then (255, 255, 255, 255) else (r, g, b, a))) img"
    by (simp add: remove_partial_transparency_def)
next
  have "(remove_partial_transparency (remove_partial_transparency img t) t
         = remove_partial_transparency img t)
      = (\<forall>row\<in>set img. \<forall>p\<in>set row.
           normalize_pixel t (normalize_pixel t p) = normalize_pixel t p)"
    by (simp add: remove_partial_transparency_def)
  also have "\<dots> = (\<forall>row\<in>set img. \<forall>p\<in>set row.
       case p of (r, g, b, a) \<Rightarrow> a = 255 \<or> uint a < t \<or> a = 0)"
    by (simp only: normalize_pixel_twice_eq_case)
  also have "\<dots> = list_all (list_all (\<lambda>(r, g, b, a). a = 255 \<or> uint a < t \<or> a = 0)) img"
    by (simp add: list_all_iff)
  finally show "(remove_partial_transparency (remove_partial_transparency img t) t
         = remove_partial_transparency img t)
      = list_all (list_all (\<lambda>(r, g, b, a). a = 255 \<or> uint a < t \<or> a = 0)) img" .
qed

subsection \<open>Brightness\<close>

lemma zip_same_maps:
  "zip (map f xs) (map g xs) = map (\<lambda>x. (f x, g x)) xs"
  by (induction xs) simp_all

lemma merge_rgb_split:
  "merge_rgb (map (map f) img) (map (map g) img) (map (map h) img)
     = map (map (\<lambda>p. (f p, g p, h p))) img"
  by (simp add: merge_rgb_def zip_same_maps)

lemma merge_rgba_split:
  "merge_rgba (map (map f) img) (map (map g) img) (map (map h) img) (map (map k) img)
     = map (map (\<lambda>p. (f p, g p, h p, k p))) img"
  by (simp add: merge_rgba_def zip_same_maps)

lemma adjust_brightness_pixelwise:
  "adjust_brightness img d =
     (let brightness = max (-100) (min 100 d)
      in if brightness = 0 then img
         else map (map (\<lambda>(r, g, b, a).
                (enhance_channel (1 + real_of_int brightness / 100) r,
                 enhance_channel (1 + real_of_int brightness / 100) g,
                 enhance_channel (1 + real_of_int brightness / 100) b, a))) img)"
proof -
  define f where "f = 1 + real_of_int (max (-100) (min 100 d)) / 100"
  have rgb: "merge_rgb (map (map (\<lambda>(r, g, b, a). r)) img) (map (map (\<lambda>(r, g, b, a). g)) img)
      (map (map (\<lambda>(r, g, b, a). b)) img) = map (map (\<lambda>(r, g, b, a). (r, g, b))) img"
    by (simp add: merge_rgb_split split_def)
  have "merge_rgba
      (map (map (\<lambda>(r, g, b). r)) (enhance_brightness (map (map (\<lambda>(r, g, b, a). (r, g, b))) img) f))
      (map (map (\<lambda>(r, g, b). g)) (enhance_brightness (map (map (\<lambda>(r, g, b, a). (r, g, b))) img) f))
      (map (map (\<lambda>(r, g, b). b)) (enhance_brightness (map (map (\<lambda>(r, g, b, a). (r, g, b))) img) f))
      (map (map (\<lambda>(r, g, b, a). a)) img)
    = map (map (\<lambda>(r, g, b, a). (enhance_channel f r, enhance_channel f g, enhance_channel f b, a))) img"
    by (simp add: enhance_brightness_def comp_def split_def merge_rgba_split)
  note merged = this
  define bb where "bb = max (-100) (min 100 d)"
  have unf: "adjust_brightness img d =
      (if bb = 0 then img
       else case split_rgba img of
           (r, g, b, a) \<Rightarrow>
             case split_rgb (enhance_brightness (merge_rgb r g b) (1 + real_of_int bb / 100)) of
             (r2, g2, b2) \<Rightarrow> merge_rgba r2 g2 b2 a)"
    unfolding adjust_brightness_def Let_def bb_def if_cancel ..
  have "adjust_brightness img d =
      (if bb = 0 then img
       else map (map (\<lambda>(r, g, b, a).
          (enhance_channel (1 + real_of_int bb / 100) r,
           enhance_channel (1 + real_of_int bb / 100) g,
           enhance_channel (1 + real_of_int bb / 100) b, a))) img)"
    unfolding unf split_rgba_def split_rgb_def prod.case rgb
    using merged by (simp only: f_def bb_def)
  then show ?thesis unfolding Let_def bb_def .
qed

lemma enhance_channel_zero: "enhance_channel 0 c = 0"
  by (simp add: enhance_channel_def)

text \<open>
  C8. For every RGBA grid and every delta, the brightness adjustment leaves the alpha of
  every pixel as it was (and keeps the dimensions); with delta -100 every RGB channel of
  every pixel becomes 0 and the alpha stays.
\<close>

theorem adjust_brightness_alpha_preserved:
  "map (map alpha_of) (adjust_brightness img delta) = map (map alpha_of) img
   \<and> adjust_brightness img (-100) = map (map (\<lambda>(r, g, b, a). (0, 0, 0, a))) img
   \<and> length (adjust_brightness img delta) = length img
   \<and> map length (adjust_brightness img delta) = map length img"
proof (intro conjI)
  have a: "alpha_of \<circ> (\<lambda>(r, g, b, a). (F r, G g, H b, a)) = alpha_of" for F G H :: "byte \<Rightarrow> byte"
    by (rule ext) (simp add: alpha_of_def split_def)
  show "map (map alpha_of) (adjust_brightness img delta) = map (map alpha_of) img"
    by (simp add: adjust_brightness_pixelwise Let_def a)
  show "adjust_brightness img (-100) = map (map (\<lambda>(r, g, b, a). (0, 0, 0, a))) img"
    by (simp add: adjust_brightness_pixelwise Let_def enhance_channel_zero)
  show "length (adjust_brightness img delta) = length img"
    by (simp add: adjust_brightness_pixelwise Let_def)
  show "map length (adjust_brightness img delta) = map length img"
    by (simp add: adjust_brightness_pixelwise Let_def comp_def)
qed

subsection \<open>Padding\<close>

lemma height_image_new: "height (image_new (w, h) c) = h"
  by (simp add: image_new_def height_def)

lemma width_image_new: "0 < h \<Longrightarrow> width (image_new (w, h) c) = w"
  by (cases h) (simp_all add: image_new_def width_def)

lemma rect_image_new: "rect (image_new (w, h) c)"
  by (cases h) (simp_all add: image_new_def rect_def width_def list_all_iff)

lemma image_new_nth: "y < h \<Longrightarrow> x < w \<Longrightarrow> image_new (w, h) c ! y ! x = c"
  by (simp add: image_new_def)

lemma map_length_paste_at: "map length (paste_at canvas src pos) = map length canvas"
  by (cases pos) (auto simp: paste_at_def list_eq_iff_nth_eq nth_enumerate_eq)

lemma width_eq_map_length: "map length g = map length g' \<Longrightarrow> width g = width g'"
  by (cases g; cases g') (simp_all add: width_def)

lemma rect_eq_map_length:
  fixes g :: "'a array2" and g' :: "'b array2"
  shows "map length g = map length g' \<Longrightarrow> rect g = rect g'"
proof -
  assume eq: "map length g = map length g'"
  define P where "P = (\<lambda>ns (w::nat). list_all (\<lambda>n. n = w) ns)"
  have a: "rect g = P (map length g) (width g)"
    by (simp add: P_def rect_def list_all_iff)
  have b: "rect g' = P (map length g') (width g')"
    by (simp add: P_def rect_def list_all_iff)
  show ?thesis unfolding a b eq width_eq_map_length[OF eq] ..
qed

lemma height_eq_map_length: "map length g = map length g' \<Longrightarrow> height g = height g'"
  unfolding height_def by (rule map_eq_imp_length_eq)

lemma add_padding_result:
  "add_padding resize img p =
     (if p \<le> 0 then Inr img
      else if int (width img) - p * 2 \<le> 0 \<or> int (height img) - p * 2 \<le> 0
      then Inl (InvalidPadding p (width img) (height img))
      else Inr (paste_at (image_new (width img, height img) (0, 0, 0, 0))
             (resize img (nat (int (width img) - p * 2), nat (int (height img) - p * 2)))
             (nat p, nat p)))"
  by (simp add: add_padding_def image_size_def Let_def)

text \<open>
  C6. For every rectangular grid with positive width and height and every padding
  \<open>p \<ge> 0\<close>, \<^verbatim>\<open>add_padding\<close> fails, with the padding error, iff \<open>2p \<ge> width\<close> or
  \<open>2p \<ge> height\<close>; when it does not fail the result has the height and width of the input
  (for \<open>p > 0\<close> it is the resized content pasted at \<open>(p, p)\<close> on a transparent canvas of the
  input's size), and \<open>p = 0\<close> returns the input itself. This holds whatever the resampling
  function is.
\<close>

theorem add_padding_bounds:
  assumes "rect img" "0 < width img" "0 < height img" "0 \<le> p"
  shows "((add_padding resize img p = Inl (InvalidPadding p (width img) (height img)))
            = (2 * p \<ge> int (width img) \<or> 2 * p \<ge> int (height img)))
    \<and> (2 * p < int (width img) \<and> 2 * p < int (height img) \<longrightarrow>
          (\<exists>out. add_padding resize img p = Inr out
             \<and> height out = height img \<and> width out = width img \<and> rect out
             \<and> (0 < p \<longrightarrow> out =
                   paste_at (image_new (width img, height img) (0, 0, 0, 0))
                     (resize img (nat (int (width img) - 2 * p), nat (int (height img) - 2 * p)))
                     (nat p, nat p))))
    \<and> add_padding resize img 0 = Inr img"
proof (intro conjI impI)
  show "(add_padding resize img p = Inl (InvalidPadding p (width img) (height img)))
            = (2 * p \<ge> int (width img) \<or> 2 * p \<ge> int (height img))"
    using assms(2-4) by (auto simp: add_padding_result)
  show "add_padding resize img 0 = Inr img"
    by (simp add: add_padding_result)
  assume ok: "2 * p < int (width img) \<and> 2 * p < int (height img)"
  show "\<exists>out. add_padding resize img p = Inr out
             \<and> height out = height img \<and> width out = width img \<and> rect out
             \<and> (0 < p \<longrightarrow> out =
                   paste_at (image_new (width img, height img) (0, 0, 0, 0))
                     (resize img (nat (int (width img) - 2 * p), nat (int (height img) - 2 * p)))
                     (nat p, nat p))"
  proof (cases "p = 0")
    case True
    then show ?thesis using assms(1) by (simp add: add_padding_result)
  next
    case False
    define canvas :: image where "canvas = image_new (width img, height img) (0, 0, 0, 0)"
    define out where "out = paste_at canvas
        (resize img (nat (int (width img) - 2 * p), nat (int (height img) - 2 * p))) (nat p, nat p)"
    have ml: "map length out = map length canvas"
      unfolding out_def by (rule map_length_paste_at)
    have res: "add_padding resize img p = Inr out"
      using False assms(4) ok by (simp add: add_padding_result out_def canvas_def mult.commute)
    have "height out = height img"
      using height_eq_map_length[OF ml] by (simp add: canvas_def height_image_new)
    moreover have "width out = width img"
      using width_eq_map_length[OF ml] assms(3) by (simp add: canvas_def width_image_new)
    moreover have "rect out"
      using rect_eq_map_length[OF ml] by (simp add: canvas_def rect_image_new)
    ultimately show ?thesis using res by (simp add: out_def canvas_def)
  qed
qed

theorem add_padding_bounds_witness:
  "rect (replicate 3 (replicate 3 ((1, 1, 1, 1) :: rgba)))
   \<and> add_padding (\<lambda>img sz. image_new sz (9, 9, 9, 9)) (replicate 3 (replicate 3 (1, 1, 1, 1))) 2
        = Inl (InvalidPadding 2 3 3)
   \<and> add_padding (\<lambda>img sz. image_new sz (9, 9, 9, 9)) (replicate 3 (replicate 3 (1, 1, 1, 1))) 1
        \<noteq> Inl (InvalidPadding 1 3 3)
   \<and> width (replicate 3 (replicate 3 ((1, 1, 1, 1) :: rgba))) = 3
   \<and> height (replicate 3 (replicate 3 ((1, 1, 1, 1) :: rgba))) = 3"
proof -
  let ?img = "replicate 3 (replicate 3 ((1, 1, 1, 1) :: rgba))"
  let ?rs = "\<lambda>(img::image) sz. image_new sz ((9, 9, 9, 9) :: rgba)"
  have w: "width ?img = 3" and h: "height ?img = 3"
    by (simp_all add: width_def height_def numeral_3_eq_3)
  have r: "rect ?img" by (simp add: rect_def w list_all_iff)
  have w0: "0 < width ?img" and h0: "0 < height ?img" by (simp_all add: w h)
  have "add_padding ?rs ?img 2 = Inl (InvalidPadding 2 3 3)"
    using add_padding_bounds[OF r w0 h0, of 2 ?rs] by (simp add: w h)
  moreover have "add_padding ?rs ?img 1 \<noteq> Inl (InvalidPadding 1 3 3)"
    using add_padding_bounds[OF r w0 h0, of 1 ?rs] by (simp add: w h)
  ultimately show ?thesis using r w h by simp
qed

subsection \<open>Outline\<close>

text \<open>Pillow's shift division by 255 is exact on multiples of 255 of a byte.\<close>

lemma div_bounds:
  fixes t b :: int
  assumes "0 < b"
  shows "b * (t div b) \<le> t" "t < b * (t div b) + b"
proof -
  have "t = b * (t div b) + t mod b" by simp
  moreover have "0 \<le> t mod b" "t mod b < b" using assms by simp_all
  ultimately show "b * (t div b) \<le> t" "t < b * (t div b) + b" by linarith+
qed

lemma shift_div_eq:
  fixes t q :: int
  assumes "0 < b" "b * q \<le> t" "t < b * q + b"
  shows "t div b = q"
proof -
  have "t = b * q + (t - b * q)" by simp
  moreover have "0 \<le> t - b * q" "t - b * q < b" using assms by simp_all
  ultimately show ?thesis by (metis int_div_pos_eq)
qed

lemma alpha_over_transparent:
  assumes "0 \<le> x" "x \<le> 255"
  shows "shift_for_div255 (x * 255 + 128) = x"
proof -
  define q where "q = (x * 255 + 128) div 256"
  have "256 * q \<le> x * 255 + 128" "x * 255 + 128 < 256 * q + 256"
    unfolding q_def using div_bounds[of "x * 255 + 128" 256] by simp_all
  then have "256 * x \<le> q + (x * 255 + 128)" "q + (x * 255 + 128) < 256 * x + 256"
    using assms by linarith+
  then have "(q + (x * 255 + 128)) div 256 = x" by (intro shift_div_eq) simp_all
  then show ?thesis by (simp add: shift_for_div255_def q_def)
qed

lemma div255_mult: "0 \<le> x \<Longrightarrow> x \<le> 255 \<Longrightarrow> div255 (x * 255) = x"
  unfolding div255_def by (rule alpha_over_transparent)

lemma blend8_0: "blend8 0 d s = d"
  using uint_byte_le[of d] by (simp add: blend8_def div255_mult)

lemma blend8_255: "blend8 255 d s = s"
  using uint_byte_le[of s] by (simp add: blend8_def div255_mult)

lemma blend_pixel_0: "blend_pixel 0 d s = d"
  by (cases d; cases s) (simp add: blend_pixel_def blend8_0)

lemma blend_pixel_255: "blend_pixel 255 d s = s"
  by (cases d; cases s) (simp add: blend_pixel_def blend8_255)

lemma composite_src_transparent: "alpha_of s = 0 \<Longrightarrow> alpha_composite_pixel d s = d"
  by (cases d; cases s) (simp add: alpha_composite_pixel_def alpha_of_def)

lemma channel_over_transparent:
  assumes "0 \<le> x" "x \<le> 255"
  shows "shift_for_div255 (x * 32640 + 16384) div 128 = x"
proof -
  define t where "t = x * 32640 + 16384"
  define q where "q = t div 256"
  define u where "u = (q + t) div 256"
  have q: "256 * q \<le> t" "t < 256 * q + 256"
    unfolding q_def using div_bounds[of t 256] by simp_all
  have u: "256 * u \<le> q + t" "q + t < 256 * u + 256"
    unfolding u_def using div_bounds[of "q + t" 256] by simp_all
  have "128 * x \<le> u" "u < 128 * x + 128"
    using q u assms unfolding t_def by linarith+
  then have "u div 128 = x" by (intro shift_div_eq) simp_all
  then show ?thesis by (simp add: shift_for_div255_def u_def q_def t_def)
qed

lemma composite_over_transparent:
  assumes "alpha_of s \<noteq> 0"
  shows "alpha_composite_pixel (0, 0, 0, 0) s = s"
proof -
  obtain r g b a where s: "s = (r, g, b, a)" by (cases s)
  have a0: "a \<noteq> 0" using assms by (simp add: s alpha_of_def)
  then have pos: "0 < uint a" by (simp add: uint_pos_iff)
  have "uint a * 255 * 255 * 128 = 32640 * (uint a * 255)" by simp
  then have coef: "uint a * 255 * 255 * 128 div (uint a * 255) = 32640"
    using pos by simp
  have ch: "word_of_int (shift_for_div255 (uint c * 32640 + 16384) div 128) = c" for c :: byte
    using uint_byte_le[of c] by (simp add: channel_over_transparent)
  have al: "word_of_int (shift_for_div255 (uint a * 255 + 128)) = a"
    using uint_byte_le[of a] by (simp add: alpha_over_transparent)
  have nz: "uint a \<noteq> 0" using pos by simp
  show ?thesis
    using a0 nz by (simp add: s alpha_composite_pixel_def Let_def coef ch al)
qed

lemma rect_map_map: "rect g \<Longrightarrow> rect (map (map f) g)"
  by (cases g) (auto simp: rect_def width_def list_all_iff)

lemma width_map_map: "width (map (map f) g) = width g"
  by (cases g) (simp_all add: width_def)

lemma height_map_map: "height (map (map f) g) = height g"
  by (simp add: height_def)

lemma binary_of_dims:
  "height (binary_of img) = height img" "width (binary_of img) = width img"
  "rect img \<Longrightarrow> rect (binary_of img)"
  by (simp_all add: binary_of_def height_map_map width_map_map rect_map_map)

lemma binary_of_nth:
  "rect img \<Longrightarrow> y < height img \<Longrightarrow> x < width img \<Longrightarrow>
     binary_of img ! y ! x = (if alpha_of (img ! y ! x) > 0 then 255 else 0)"
  by (simp add: binary_of_def height_def rect_nth)

lemma add_outline_unfold:
  "add_outline img w c =
      alpha_composite
        (alpha_composite (image_new (width img, height img) (0, 0, 0, 0))
           (paste_masked (image_new (width img, height img) (0, 0, 0, 0))
              (image_new (width img, height img) (ink c))
              (map (\<lambda>(drow, brow). map (\<lambda>(d, b). if d > 0 \<and> b = 0 then 255 else 0) (zip drow brow))
                 (zip (dilate_with_circular_kernel (binary_of img) w) (binary_of img)))))
        img"
  by (simp add: add_outline_def Let_def image_size_def binary_of_def)

lemma outline_masks_dims:
  assumes "rect img" "y < height img"
  shows "length (binary_of img) = length img"
    and "length (dilate_with_circular_kernel (binary_of img) w) = length img"
    and "length (binary_of img ! y) = width img"
    and "length (dilate_with_circular_kernel (binary_of img) w ! y) = width img"
    and "length (img ! y) = width img"
proof -
  define B where "B = binary_of img"
  define D where "D = dilate_with_circular_kernel B w"
  have yl: "y < length img" using assms(2) by (simp add: height_def)
  show lB: "length (binary_of img) = length img"
    using binary_of_dims(1)[of img] by (simp add: height_def)
  show lD: "length (dilate_with_circular_kernel (binary_of img) w) = length img"
    using height_dilate[of "binary_of img" w] lB by (simp add: height_def)
  show "length (binary_of img ! y) = width img"
    using rect_nth[OF binary_of_dims(3)[OF assms(1)], of y] yl lB
    by (simp add: binary_of_dims(2))
  have "rect (dilate_with_circular_kernel (binary_of img) w)"
    by (intro rect_dilate binary_of_dims(3) assms(1))
  then show "length (dilate_with_circular_kernel (binary_of img) w ! y) = width img"
    using rect_nth[of "dilate_with_circular_kernel (binary_of img) w" y] yl lD
    by (simp add: width_dilate binary_of_dims(2))
  show "length (img ! y) = width img" using assms(1) yl by (rule rect_nth)
qed

lemma add_outline_row_length:
  assumes "rect img" "y < height img"
  shows "length (add_outline img w c ! y) = width img"
  unfolding add_outline_unfold using assms(2) outline_masks_dims[OF assms]
  by (simp add: alpha_composite_def paste_masked_def image_new_def height_def)

lemma add_outline_cell:
  assumes "rect img" "y < height img" "x < width img"
  shows "add_outline img w c ! y ! x =
     alpha_composite_pixel
       (alpha_composite_pixel (0, 0, 0, 0)
          (blend_pixel
             (if dilate_with_circular_kernel (binary_of img) w ! y ! x > 0
                 \<and> binary_of img ! y ! x = 0 then 255 else 0)
             (0, 0, 0, 0) (ink c)))
       (img ! y ! x)"
  unfolding add_outline_unfold using assms(2,3) outline_masks_dims[OF assms(1,2)]
  by (simp add: alpha_composite_def paste_masked_def image_new_def height_def)

lemma height_add_outline: "rect img \<Longrightarrow> height (add_outline img w c) = height img"
proof -
  have "length (dilate_with_circular_kernel (binary_of img) w) = length img"
    using height_dilate[of "binary_of img" w] binary_of_dims(1)[of img] by (simp add: height_def)
  then show ?thesis
    using binary_of_dims(1)[of img] unfolding add_outline_unfold
    by (simp add: alpha_composite_def paste_masked_def image_new_def height_def)
qed

lemma width_add_outline: assumes "rect img" shows "width (add_outline img w c) = width img"
proof (cases "img = []")
  case True
  then show ?thesis
    using height_add_outline[OF assms, of w c] by (simp add: height_def width_def)
next
  case False
  then have h: "0 < height img" by (simp add: height_def)
  then have ne: "add_outline img w c \<noteq> []"
    using height_add_outline[OF assms, of w c] by (auto simp: height_def)
  show ?thesis using width_nth0[OF ne] add_outline_row_length[OF assms h] by simp
qed

lemma rect_add_outline: assumes "rect img" shows "rect (add_outline img w c)"
proof -
  have "length (add_outline img w c ! y) = width (add_outline img w c)"
    if "y < length (add_outline img w c)" for y
    using that height_add_outline[OF assms, of w c] add_outline_row_length[OF assms, of y w c]
    by (simp add: width_add_outline[OF assms] height_def)
  then show ?thesis by (simp add: rect_def list_all_length)
qed

lemma add_outline_opaque:
  assumes "rect img" "y < height img" "x < width img" "alpha_of (img ! y ! x) > 0"
  shows "add_outline img w c ! y ! x = img ! y ! x"
proof -
  have nz: "alpha_of (img ! y ! x) \<noteq> 0" using assms(4) by (simp add: word_greater_zero_iff)
  have "binary_of img ! y ! x = 255" using assms by (simp add: binary_of_nth)
  then show ?thesis
    unfolding add_outline_cell[OF assms(1-3)]
    by (simp add: blend_pixel_0 composite_src_transparent[of "(0, 0, 0, 0)"] alpha_of_def
        composite_over_transparent[OF nz])
qed

lemma add_outline_ring:
  assumes "rect img" "y < height img" "x < width img" "alpha_of (img ! y ! x) = 0"
    and "dilate_with_circular_kernel (binary_of img) w ! y ! x > 0"
  shows "add_outline img w c ! y ! x = (if alpha_of (ink c) = 0 then (0, 0, 0, 0) else ink c)"
proof -
  have "binary_of img ! y ! x = 0" using assms(1-4) by (simp add: binary_of_nth)
  then show ?thesis
    unfolding add_outline_cell[OF assms(1-3)] using assms(4,5)
    by (simp add: blend_pixel_255 composite_src_transparent composite_over_transparent)
qed

lemma add_outline_elsewhere:
  assumes "rect img" "y < height img" "x < width img" "alpha_of (img ! y ! x) = 0"
    and "\<not> dilate_with_circular_kernel (binary_of img) w ! y ! x > 0"
  shows "add_outline img w c ! y ! x = (0, 0, 0, 0)"
  unfolding add_outline_cell[OF assms(1-3)] using assms(4,5)
  by (simp add: blend_pixel_0 composite_src_transparent alpha_of_def)

text \<open>
  C4 as stated fails in its last part. On the one-row image with an opaque white pixel and
  the transparent pixel (7, 7, 7, 0), with width 1 and the outline colour (1, 2, 3, 0), the
  transparent pixel lies where the dilated mask minus the original mask is set; it changes,
  to (0, 0, 0, 0), and that is not the outline colour: compositing a layer of alpha 0 leaves
  the transparent background.
\<close>

theorem add_outline_ring_counterexample:
  "alpha_of ([[(255, 255, 255, 255), (7, 7, 7, 0)]] ! 0 ! 1) = 0
   \<and> dilate_with_circular_kernel (binary_of [[(255, 255, 255, 255), (7, 7, 7, 0)]]) 1 ! 0 ! 1 > 0
   \<and> binary_of [[(255, 255, 255, 255), (7, 7, 7, 0)]] ! 0 ! 1 = 0
   \<and> add_outline [[(255, 255, 255, 255), (7, 7, 7, 0)]] 1 (1, 2, 3, 0) ! 0 ! 1 = (0, 0, 0, 0)
   \<and> add_outline [[(255, 255, 255, 255), (7, 7, 7, 0)]] 1 (1, 2, 3, 0) ! 0 ! 1 \<noteq> ink (1, 2, 3, 0)
   \<and> add_outline [[(255, 255, 255, 255), (7, 7, 7, 0)]] 1 (1, 2, 3, 0) ! 0 ! 1
        \<noteq> [[(255, 255, 255, 255), (7, 7, 7, 0)]] ! 0 ! 1"
  by code_simp

text \<open>
  C4, amended. For every rectangular RGBA grid, every width and every outline colour, the
  result has the dimensions of the input, and every pixel with input alpha \<open>> 0\<close> keeps
  exactly its input colour and alpha. A pixel that was fully transparent becomes the outline
  colour where the dilated mask minus the original mask is set and the outline colour's
  alpha is not 0, and becomes (0, 0, 0, 0) everywhere else.
\<close>

theorem add_outline_pixels:
  assumes "rect img"
  shows "height (add_outline img w c) = height img
    \<and> width (add_outline img w c) = width img
    \<and> rect (add_outline img w c)
    \<and> (\<forall>y<height img. \<forall>x<width img.
          add_outline img w c ! y ! x =
            (if alpha_of (img ! y ! x) > 0 then img ! y ! x
             else if dilate_with_circular_kernel (binary_of img) w ! y ! x > 0
                     \<and> alpha_of (ink c) \<noteq> 0
                  then ink c
                  else (0, 0, 0, 0)))"
proof (intro conjI allI impI)
  show "height (add_outline img w c) = height img" using assms by (rule height_add_outline)
  show "width (add_outline img w c) = width img" using assms by (rule width_add_outline)
  show "rect (add_outline img w c)" using assms by (rule rect_add_outline)
  fix y x
  assume y: "y < height img" and x: "x < width img"
  consider "alpha_of (img ! y ! x) > 0"
    | "alpha_of (img ! y ! x) = 0" "dilate_with_circular_kernel (binary_of img) w ! y ! x > 0"
    | "alpha_of (img ! y ! x) = 0" "\<not> dilate_with_circular_kernel (binary_of img) w ! y ! x > 0"
    by (auto simp: word_greater_zero_iff)
  then show "add_outline img w c ! y ! x =
            (if alpha_of (img ! y ! x) > 0 then img ! y ! x
             else if dilate_with_circular_kernel (binary_of img) w ! y ! x > 0
                     \<and> alpha_of (ink c) \<noteq> 0
                  then ink c
                  else (0, 0, 0, 0))"
  proof cases
    case 1
    then show ?thesis by (simp add: add_outline_opaque[OF assms y x])
  next
    case 2
    then show ?thesis by (simp add: add_outline_ring[OF assms y x])
  next
    case 3
    then show ?thesis by (simp add: add_outline_elsewhere[OF assms y x])
  qed
qed

theorem add_outline_pixels_witness:
  "rect [[(255, 255, 255, 255), (7, 7, 7, 0) :: rgba]]
   \<and> add_outline [[(255, 255, 255, 255), (7, 7, 7, 0)]] 1 (1, 2, 3, 255) ! 0 ! 0
        = (255, 255, 255, 255)
   \<and> add_outline [[(255, 255, 255, 255), (7, 7, 7, 0)]] 1 (1, 2, 3, 255) ! 0 ! 1 = (1, 2, 3, 255)
   \<and> height (add_outline [[(255, 255, 255, 255), (7, 7, 7, 0)]] 1 (1, 2, 3, 255)) = 1
   \<and> width (add_outline [[(255, 255, 255, 255), (7, 7, 7, 0)]] 1 (1, 2, 3, 255)) = 2"
proof -
  let ?img = "[[(255, 255, 255, 255), (7, 7, 7, 0) :: rgba]]"
  have r: "rect ?img" by (simp add: rect_def width_def)
  have h: "height ?img = 1" and w: "width ?img = 2" by (simp_all add: height_def width_def)
  have d: "dilate_with_circular_kernel (binary_of ?img) 1 ! 0 ! 1 > 0" by code_simp
  have i: "ink (1, 2, 3, 255) = (1, 2, 3, 255)" by (simp add: ink_def clip8_def)
  note spec = add_outline_pixels[OF r, of 1 "(1, 2, 3, 255)"]
  have cells: "\<forall>y<1. \<forall>x<2. add_outline ?img 1 (1, 2, 3, 255) ! y ! x =
            (if alpha_of (?img ! y ! x) > 0 then ?img ! y ! x
             else if dilate_with_circular_kernel (binary_of ?img) 1 ! y ! x > 0
                     \<and> alpha_of (ink (1, 2, 3, 255)) \<noteq> 0
                  then ink (1, 2, 3, 255)
                  else (0, 0, 0, 0))"
    using spec unfolding h w by blast
  have a: "add_outline ?img 1 (1, 2, 3, 255) ! 0 ! 0 = (255, 255, 255, 255)"
    using cells[rule_format, of 0 0] by (simp add: alpha_of_def)
  have b: "add_outline ?img 1 (1, 2, 3, 255) ! 0 ! 1 = (1, 2, 3, 255)"
    using cells[rule_format, of 0 1] d by (simp add: alpha_of_def i)
  show ?thesis using r spec a b by (simp add: h w)
qed

subsection \<open>The pipeline\<close>

text \<open>The body of \<^verbatim>\<open>process_image\<close> with the outline stage named.\<close>

lemma apply_effects_unfold:
  "apply_effects resize can_allocate img rt ot outline brightness padding =
     (case (if padding \<noteq> None \<and> the padding > 0
            then add_padding resize img (the padding) else Inr img) of
        Inl e \<Rightarrow> Inl e
      | Inr img1 \<Rightarrow>
          if outline \<noteq> None \<and> the outline \<noteq> []
          then outline_stage can_allocate (the outline)
                 (let img2 = (if rt then remove_partial_transparency img1 ot else img1)
                  in if brightness \<noteq> None \<and> the brightness \<noteq> 0
                     then adjust_brightness img2 (the brightness) else img2)
          else Inr (let img2 = (if rt then remove_partial_transparency img1 ot else img1)
                    in if brightness \<noteq> None \<and> the brightness \<noteq> 0
                       then adjust_brightness img2 (the brightness) else img2))"
  unfolding apply_effects_def outline_stage_def Let_def ..

text \<open>
  C5. For every input grid and every request, the result of the pipeline is the result of
  running exactly the requested stages, in the order padding, alpha normalisation,
  brightness, outline, each on the output of the one before (an error of a stage ends the
  run); a stage that is not requested is not run at all.
\<close>

theorem apply_effects_stage_order:
  "apply_effects resize can_allocate img remove_transparency opacity_threshold outline
       brightness padding =
     run_stages
       (requested_stages resize can_allocate remove_transparency opacity_threshold outline
          brightness padding)
       img
   \<and> requested_stages resize can_allocate remove_transparency opacity_threshold outline
         brightness padding =
       (case padding of None \<Rightarrow> [] | Some p \<Rightarrow> if p > 0 then [padding_stage resize p] else [])
       @ (if remove_transparency then [normalize_stage opacity_threshold] else [])
       @ (case brightness of None \<Rightarrow> [] | Some d \<Rightarrow> if d \<noteq> 0 then [brightness_stage d] else [])
       @ (case outline of
            None \<Rightarrow> []
          | Some s \<Rightarrow> if s \<noteq> [] then [outline_stage can_allocate s] else [])"
proof
  show "apply_effects resize can_allocate img remove_transparency opacity_threshold outline
       brightness padding =
     run_stages
       (requested_stages resize can_allocate remove_transparency opacity_threshold outline
          brightness padding)
       img"
    unfolding apply_effects_unfold requested_stages_def
    by (cases padding; cases brightness; cases outline; cases remove_transparency)
       (simp_all add: padding_stage_def normalize_stage_def brightness_stage_def Let_def
          split: sum.splits)
next
  show "requested_stages resize can_allocate remove_transparency opacity_threshold outline
         brightness padding =
       (case padding of None \<Rightarrow> [] | Some p \<Rightarrow> if p > 0 then [padding_stage resize p] else [])
       @ (if remove_transparency then [normalize_stage opacity_threshold] else [])
       @ (case brightness of None \<Rightarrow> [] | Some d \<Rightarrow> if d \<noteq> 0 then [brightness_stage d] else [])
       @ (case outline of
            None \<Rightarrow> []
          | Some s \<Rightarrow> if s \<noteq> [] then [outline_stage can_allocate s] else [])"
    by (rule requested_stages_def)
qed








lemma py_int_examples:
  "py_int ''14'' = Some 14"
  "py_int (replicate 4301 CHR ''1'') = None"
  by (simp_all add: py_int_def)




end
